theory Spec2Isabelle
  imports Main "HOL-Library.Sublist"
begin

section \<open>Strings\<close>

text \<open>
  JavaScript strings are modelled as \<open>string\<close> (lists of characters). The character
  classes below are the ones the regular expressions of \<^verbatim>\<open>generateFieldName\<close> name:
  \<^verbatim>\<open>[a-z]\<close>, \<^verbatim>\<open>[0-9]\<close> and the underscore. \<open>toLowerCase\<close> maps the ASCII capitals to
  their small letters and leaves every other character alone.
\<close>

definition isLower :: "char \<Rightarrow> bool" where
  "isLower c \<longleftrightarrow> c \<in> set ''abcdefghijklmnopqrstuvwxyz''"

definition isDigit :: "char \<Rightarrow> bool" where
  "isDigit c \<longleftrightarrow> c \<in> set ''0123456789''"

definition toLowerCase :: "string \<Rightarrow> string" where
  "toLowerCase s =
     map (\<lambda>c. case map_of (zip ''ABCDEFGHIJKLMNOPQRSTUVWXYZ'' ''abcdefghijklmnopqrstuvwxyz'') c of
                 Some d \<Rightarrow> d | None \<Rightarrow> c) s"

text \<open>\<^verbatim>\<open>s.startsWith(p)\<close>\<close>

definition startsWith :: "string \<Rightarrow> string \<Rightarrow> bool" where
  "startsWith s p \<longleftrightarrow> prefix p s"

text \<open>
  \<^verbatim>\<open>s.replace(p, "")\<close> with a string pattern: the first occurrence of \<open>p\<close> in \<open>s\<close>
  is removed, and \<open>s\<close> is returned as it is when \<open>p\<close> does not occur.
\<close>

fun replaceFirst :: "string \<Rightarrow> string \<Rightarrow> string" where
  "replaceFirst p [] = []"
| "replaceFirst p (c # cs) =
     (if prefix p (c # cs) then drop (length p) (c # cs) else c # replaceFirst p cs)"

text \<open>Decimal rendering of an integer, as a template literal prints a whole number.\<close>

definition digitChar :: "nat \<Rightarrow> char" where
  "digitChar d = ''0123456789'' ! (d mod 10)"

function stringOfNat :: "nat \<Rightarrow> string" where
  "stringOfNat n = (if n < 10 then [digitChar n] else stringOfNat (n div 10) @ [digitChar n])"
  by pat_completeness auto
termination
  by (relation "measure id") auto

declare stringOfNat.simps [simp del]

definition stringOfInt :: "int \<Rightarrow> string" where
  "stringOfInt i = (if i < 0 then ''-'' @ stringOfNat (nat (- i)) else stringOfNat (nat i))"


section \<open>The local-name normalizer (\<^verbatim>\<open>generateFieldName\<close>)\<close>

text \<open>
  \<^verbatim>\<open>
  const generateFieldName = (label) => {
    if (!label) return '';
    let name = label.toLowerCase()
      .replace(/[^a-z0-9_]/g, '_')
      .replace(/_+/g, '_')
      .replace(/^_+|_+$/g, '');
    if (name && !/^[a-z]/.test(name)) {
      name = 'field_' + name;
    }
    return name || 'field';
  };
  \<close>
\<close>

text \<open>\<^verbatim>\<open>.replace(/[^a-z0-9_]/g, '_')\<close>\<close>

definition sanitize :: "string \<Rightarrow> string" where
  "sanitize s = map (\<lambda>c. if isLower c \<or> isDigit c \<or> c = CHR ''_'' then c else CHR ''_'') s"

text \<open>\<^verbatim>\<open>.replace(/_+/g, '_')\<close>: every run of underscores becomes one underscore.\<close>

fun collapse :: "string \<Rightarrow> string" where
  "collapse (a # b # cs) =
     (if a = CHR ''_'' \<and> b = CHR ''_'' then collapse (b # cs) else a # collapse (b # cs))"
| "collapse cs = cs"

text \<open>\<^verbatim>\<open>.replace(/^_+|_+$/g, '')\<close>: leading and trailing underscores are removed.\<close>

definition trimUnderscores :: "string \<Rightarrow> string" where
  "trimUnderscores s =
     rev (dropWhile (\<lambda>c. c = CHR ''_'') (rev (dropWhile (\<lambda>c. c = CHR ''_'') s)))"

definition generateFieldName :: "string \<Rightarrow> string" where
  "generateFieldName label =
     (if label = [] then []
      else
        let name = trimUnderscores (collapse (sanitize (toLowerCase label)));
            name = (if name \<noteq> [] \<and> \<not> isLower (hd name) then ''field_'' @ name else name)
        in if name = [] then ''field'' else name)"


section \<open>Field definitions\<close>

text \<open>
  The \<^verbatim>\<open>validation\<close> bag of a field. A property that is missing is \<open>None\<close>; the
  numbers of a persisted schema are whole numbers here.
\<close>

datatype validation = Validation
  (minLength: "int option")
  (maxLength: "int option")
  (minv: "int option")
  (maxv: "int option")
  (regex: "string option")
  (accept: "string option")

text \<open>
  The value under a key of a \<^verbatim>\<open>conditionalFields\<close> object: the array of nested fields
  shown under that option, or some other JSON value, of which the code only asks whether it
  is truthy (\<^verbatim>\<open>Array.isArray\<close> tells the two apart; an array is truthy).
\<close>

datatype 'f branch =
    FieldArray "'f list"
  | OtherValue bool

text \<open>
  A field object of a form: \<^verbatim>\<open>{name, label, type, required, options, validation,
  conditionalFields}\<close>. \<open>ftype\<close> is the \<^verbatim>\<open>type\<close> tag, a string as in the source, so a tag
  outside the nine known kinds is a value of the model too. \<open>conditionalFields\<close> is the
  object that maps an option to the value stored under it (\<open>None\<close> when the property is
  missing), given by its own properties in order, each key once. A missing \<^verbatim>\<open>options\<close>
  array is the empty list.
\<close>

datatype field = Field
  (name: string)
  (label: string)
  (ftype: string)
  (required: bool)
  (options: "string list")
  (validation: validation)
  (conditionalFields: "(string \<times> field branch) list option")

text \<open>The values a form holds for its fields.\<close>

datatype jsvalue =
    VUndefined
  | VNull
  | VBool bool
  | VString string
  | VFile string  \<comment> \<open>a \<^verbatim>\<open>File\<close> object, with its \<^verbatim>\<open>name\<close>\<close>
  | VDate string string  \<comment> \<open>a valid \<^verbatim>\<open>Date\<close>, with its \<^verbatim>\<open>toISOString()\<close> and \<^verbatim>\<open>toString()\<close>\<close>

text \<open>Truthiness of a string that may be missing: \<^verbatim>\<open>undefined\<close> and \<^verbatim>\<open>""\<close> are falsy.\<close>

fun truthy :: "string option \<Rightarrow> bool" where
  "truthy None = False"
| "truthy (Some s) = (s \<noteq> [])"


section \<open>Plain objects used as dictionaries\<close>

text \<open>
  \<^verbatim>\<open>selectedValues\<close>, \<^verbatim>\<open>conditionalFields\<close>, the form's \<^verbatim>\<open>values\<close>, \<^verbatim>\<open>schema\<close> and
  \<^verbatim>\<open>initialValues\<close> are plain objects (made by \<^verbatim>\<open>{}\<close>, by a spread or by parsing JSON)
  that the page reads and writes with computed keys. The own properties of such an object
  are a map. A read \<^verbatim>\<open>object[key]\<close> finds the own property, else the member of that name
  which every object inherits from \<^verbatim>\<open>Object.prototype\<close>, else \<^verbatim>\<open>undefined\<close>.
\<close>

definition objectPrototypeKeys :: "string list" where
  "objectPrototypeKeys =
     [''constructor'', ''hasOwnProperty'', ''isPrototypeOf'', ''propertyIsEnumerable'',
      ''toLocaleString'', ''toString'', ''valueOf'', ''__defineGetter__'', ''__defineSetter__'',
      ''__lookupGetter__'', ''__lookupSetter__'', ''__proto__'']"

datatype 'a property = Own 'a | Inherited string | Missing

definition getProperty :: "(string \<rightharpoonup> 'a) \<Rightarrow> string \<Rightarrow> 'a property" where
  "getProperty obj key =
     (case obj key of
        Some v \<Rightarrow> Own v
      | None \<Rightarrow> if key \<in> set objectPrototypeKeys then Inherited key else Missing)"

text \<open>
  \<^verbatim>\<open>String(member)\<close> of an inherited member, which is the property key the member turns
  into when it is used as one. The members are built-in functions, printed the way the
  engines of browsers and of Node print them; \<^verbatim>\<open>__proto__\<close> reads as the prototype object
  itself.
\<close>

definition inheritedToString :: "string \<Rightarrow> string" where
  "inheritedToString member =
     (if member = ''__proto__'' then ''[object Object]''
      else if member = ''constructor'' then ''function Object() { [native code] }''
      else ''function '' @ member @ ''() { [native code] }'')"

text \<open>
  A write \<^verbatim>\<open>object[key] = value\<close> makes or replaces the own property. The key
  \<^verbatim>\<open>__proto__\<close> is the exception: it is an accessor inherited from \<^verbatim>\<open>Object.prototype\<close>,
  whose setter changes the prototype at most, and no own property appears.
\<close>

definition setProperty :: "(string \<rightharpoonup> 'a) \<Rightarrow> string \<Rightarrow> 'a \<Rightarrow> (string \<rightharpoonup> 'a)" where
  "setProperty obj key v = (if key = ''__proto__'' then obj else obj(key \<mapsto> v))"


section \<open>The field expander (\<^verbatim>\<open>getAllFields\<close>)\<close>

text \<open>
  \<^verbatim>\<open>
  const getAllFields = (fields, selectedValues = {}) => {
    const allFields = [...fields];
    fields.forEach((field) => {
      if ((field.type === "radio" || field.type === "select") && field.conditionalFields) {
        const selectedValue = selectedValues[field.name];
        if (selectedValue && field.conditionalFields[selectedValue]) {
          const conditionalFields = Array.isArray(field.conditionalFields[selectedValue])
            ? field.conditionalFields[selectedValue] : [];
          conditionalFields.forEach((nestedField) => {
            const nestedFieldCopy = { ...nestedField };
            nestedFieldCopy.name = `${field.name}_${nestedField.name}`;
            allFields.push(nestedFieldCopy);
          });
        }
      }
    });
    return allFields;
  };
  \<close>
  \<open>selectedValues\<close> is given by its own properties, a map from field names to the chosen
  option.
\<close>

text \<open>The qualified name of a nested field: \<^verbatim>\<open>`${field.name}_${nestedField.name}`\<close>.\<close>

definition qualify :: "string \<Rightarrow> string \<Rightarrow> string" where
  "qualify parent localName = parent @ ''_'' @ localName"

text \<open>\<^verbatim>\<open>{ ...nestedField }\<close> with \<^verbatim>\<open>name\<close> replaced.\<close>

fun withName :: "string \<Rightarrow> field \<Rightarrow> field" where
  "withName n (Field _ l t r os v cf) = Field n l t r os v cf"

definition nestedFieldCopy :: "field \<Rightarrow> field \<Rightarrow> field" where
  "nestedFieldCopy field nestedField = withName (qualify (name field) (name nestedField)) nestedField"

text \<open>
  \<^verbatim>\<open>selectedValues[name]\<close> when it is truthy, as the key it is in
  \<^verbatim>\<open>conditionalFields[selectedValue]\<close>; \<open>None\<close> when it is falsy (\<^verbatim>\<open>undefined\<close> or the
  empty string).
\<close>

definition selectedKey :: "(string \<rightharpoonup> string) \<Rightarrow> string \<Rightarrow> string option" where
  "selectedKey selectedValues n =
     (case getProperty selectedValues n of
        Own selectedValue \<Rightarrow> if selectedValue = [] then None else Some selectedValue
      | Inherited member \<Rightarrow> Some (inheritedToString member)
      | Missing \<Rightarrow> None)"

text \<open>The array \<^verbatim>\<open>conditionalFields\<close> that the inner loop runs over (empty when a guard fails).\<close>

definition selectedBranch :: "(string \<rightharpoonup> string) \<Rightarrow> field \<Rightarrow> field list" where
  "selectedBranch selectedValues field =
     (if ftype field = ''radio'' \<or> ftype field = ''select'' then
        (case conditionalFields field of
           None \<Rightarrow> []
         | Some cf \<Rightarrow>
             (case selectedKey selectedValues (name field) of
                None \<Rightarrow> []
              | Some selectedValue \<Rightarrow>
                  (case getProperty (map_of cf) selectedValue of
                     Own (FieldArray nested) \<Rightarrow> nested
                   | _ \<Rightarrow> [])))
      else [])"

text \<open>The body of the outer \<^verbatim>\<open>forEach\<close>: every nested field of the branch is copied and pushed.\<close>

definition expandField :: "(string \<rightharpoonup> string) \<Rightarrow> field \<Rightarrow> field list \<Rightarrow> field list" where
  "expandField selectedValues field allFields =
     fold (\<lambda>nestedField acc. acc @ [nestedFieldCopy field nestedField])
       (selectedBranch selectedValues field) allFields"

definition getAllFields :: "field list \<Rightarrow> (string \<rightharpoonup> string) \<Rightarrow> field list" where
  "getAllFields fields selectedValues = fold (expandField selectedValues) fields fields"


section \<open>Resolving a qualified name (in \<^verbatim>\<open>handleSubmit\<close>)\<close>

text \<open>
  \<^verbatim>\<open>
  const parentField = form.fields.find((pf) => name.startsWith(`${pf.name}_`));
  if (parentField) {
    const nestedFieldName = name.replace(`${parentField.name}_`, "");
  \<close>
  The reverse of \<open>qualify\<close> as the submit handler computes it: the first top-level field
  whose name followed by an underscore starts the qualified name, and the rest.
\<close>

definition parentField :: "field list \<Rightarrow> string \<Rightarrow> field option" where
  "parentField fields n = find (\<lambda>pf. startsWith n (name pf @ ''_'')) fields"

definition unqualify :: "field list \<Rightarrow> string \<Rightarrow> (string \<times> string) option" where
  "unqualify fields n =
     (case parentField fields n of
        None \<Rightarrow> None
      | Some pf \<Rightarrow> Some (name pf, replaceFirst (name pf @ ''_'') n))"


section \<open>The rule synthesizer (\<^verbatim>\<open>generateValidationSchema\<close>)\<close>

text \<open>
  A Yup schema is built by a chain of method calls on a constructor, for example
  \<^verbatim>\<open>Yup.string().min(5, msg).nullable().notRequired()\<close>. The model keeps the chain as it
  was called: the constructor and the calls in order.
\<close>

datatype yupType = YupString | YupNumber | YupDate | YupBoolean | YupMixed

datatype yupCall =
    Email string  \<comment> \<open>\<^verbatim>\<open>.email(message)\<close>\<close>
  | YupMin int string  \<comment> \<open>\<^verbatim>\<open>.min(limit, message)\<close>\<close>
  | YupMax int string  \<comment> \<open>\<^verbatim>\<open>.max(limit, message)\<close>\<close>
  | Matches string string  \<comment> \<open>\<^verbatim>\<open>.matches(new RegExp(source), message)\<close>\<close>
  | OneOf "jsvalue list" string  \<comment> \<open>\<^verbatim>\<open>.oneOf(values, message)\<close>\<close>
  | Required string  \<comment> \<open>\<^verbatim>\<open>.required(message)\<close>\<close>
  | Nullable bool  \<comment> \<open>\<^verbatim>\<open>.nullable()\<close> is \<open>Nullable True\<close>, \<^verbatim>\<open>.nullable(false)\<close> is \<open>Nullable False\<close>\<close>
  | NotRequired  \<comment> \<open>\<^verbatim>\<open>.notRequired()\<close>\<close>
  | TypeError string  \<comment> \<open>\<^verbatim>\<open>.typeError(message)\<close>\<close>
  | TransformNumber  \<comment> \<open>\<^verbatim>\<open>.transform(...)\<close> of the number case: empty string and null become undefined\<close>
  | TransformDate  \<comment> \<open>\<^verbatim>\<open>.transform(...)\<close> of the date case: a blank string becomes undefined\<close>
  | TestFileRequired string  \<comment> \<open>\<^verbatim>\<open>.test("file-required", message, ...)\<close>\<close>

datatype yup = Yup (base: yupType) (calls: "yupCall list")

text \<open>\<^verbatim>\<open>if (field.validation?.minLength) { ... }\<close>: a missing number and \<open>0\<close> are falsy.\<close>

fun whenTruthy :: "int option \<Rightarrow> (int \<Rightarrow> yupCall) \<Rightarrow> yupCall list" where
  "whenTruthy None f = []"
| "whenTruthy (Some n) f = (if n = 0 then [] else [f n])"

text \<open>\<^verbatim>\<open>if (field.validation?.min !== undefined) { ... }\<close>\<close>

fun whenDefined :: "int option \<Rightarrow> (int \<Rightarrow> yupCall) \<Rightarrow> yupCall list" where
  "whenDefined None f = []"
| "whenDefined (Some n) f = [f n]"

definition minLengthCalls :: "field \<Rightarrow> yupCall list" where
  "minLengthCalls field =
     whenTruthy (minLength (validation field))
       (\<lambda>n. YupMin n (label field @ '' must be at least '' @ stringOfInt n @ '' characters''))"

definition maxLengthCalls :: "field \<Rightarrow> yupCall list" where
  "maxLengthCalls field =
     whenTruthy (maxLength (validation field))
       (\<lambda>n. YupMax n (label field @ '' must be at most '' @ stringOfInt n @ '' characters''))"

text \<open>
  The \<^verbatim>\<open>try { new RegExp(...) } catch (e) { console.error(...) }\<close> block of the text case.
  \<open>validRegExp\<close> says of a pattern source whether the \<^verbatim>\<open>RegExp\<close> constructor accepts it
  (it throws a \<^verbatim>\<open>SyntaxError\<close> otherwise). The result is what was logged and the calls
  added to the chain.
\<close>

definition regexCalls :: "(string \<Rightarrow> bool) \<Rightarrow> field \<Rightarrow> string list \<times> yupCall list" where
  "regexCalls validRegExp field =
     (if truthy (regex (validation field)) then
        (let source = the (regex (validation field)) in
         if validRegExp source then ([], [Matches source (label field @ '' format is invalid'')])
         else ([''Invalid regex pattern: '' @ source], []))
      else ([], []))"

text \<open>The \<^verbatim>\<open>switch (field.type)\<close>: the log lines and the schema of each case.\<close>

definition typeSchema :: "(string \<Rightarrow> bool) \<Rightarrow> field \<Rightarrow> string list \<times> yup" where
  "typeSchema validRegExp field =
     (if ftype field = ''email'' then
        ([], Yup YupString
               ([Email (label field @ '' must be a valid email address'')]
                @ minLengthCalls field @ maxLengthCalls field))
      else if ftype field = ''number'' then
        ([], Yup YupNumber
               ([TransformNumber, TypeError (label field @ '' must be a valid number''), Nullable True]
                @ whenDefined (minv (validation field))
                    (\<lambda>n. YupMin n (label field @ '' must be at least '' @ stringOfInt n))
                @ whenDefined (maxv (validation field))
                    (\<lambda>n. YupMax n (label field @ '' must be at most '' @ stringOfInt n))))
      else if ftype field = ''text'' \<or> ftype field = ''textarea'' then
        (fst (regexCalls validRegExp field),
         Yup YupString
           (minLengthCalls field @ maxLengthCalls field @ snd (regexCalls validRegExp field)))
      else if ftype field = ''date'' then
        ([], Yup YupDate
               ([TransformDate, TypeError (label field @ '' must be a valid date''), Nullable True]
                @ (if required field
                   then [Required (label field @ '' is required''), Nullable False] else [])))
      else if ftype field = ''select'' \<or> ftype field = ''radio'' then
        ([], Yup YupString
               (if options field \<noteq> []
                then [OneOf (map VString (options field))
                        (label field @ '' must be one of the provided options'')]
                else []))
      else if ftype field = ''checkbox'' then ([], Yup YupBoolean [])
      else if ftype field = ''file'' then
        ([], if required field
             then Yup YupMixed [TestFileRequired (label field @ '' is required'')]
             else Yup YupMixed [Nullable True, NotRequired])
      else ([], Yup YupString []))"

text \<open>The calls of the block "Add required validation" after the switch.\<close>

definition requiredCalls :: "field \<Rightarrow> yupCall list" where
  "requiredCalls field =
     (if required field \<and> ftype field \<noteq> ''file'' then
        (if ftype field = ''checkbox'' then [OneOf [VBool True] (label field @ '' is required'')]
         else if ftype field = ''number'' then
           [Required (label field @ '' is required''), Nullable False]
         else if ftype field = ''date'' then
           [Required (label field @ '' is required''), Nullable False]
         else [Required (label field @ '' is required'')])
      else if \<not> required field then
        (if ftype field = ''number'' \<or> ftype field = ''date'' then [Nullable True, NotRequired]
         else if ftype field \<noteq> ''checkbox'' \<and> ftype field \<noteq> ''file''
           then [Nullable True, NotRequired]
         else [])
      else [])"

text \<open>One round of \<^verbatim>\<open>allFields.forEach\<close>: the log lines and the value of \<^verbatim>\<open>fieldSchema\<close>.\<close>

definition fieldSchema :: "(string \<Rightarrow> bool) \<Rightarrow> field \<Rightarrow> string list \<times> yup" where
  "fieldSchema validRegExp field =
     (fst (typeSchema validRegExp field),
      Yup (base (snd (typeSchema validRegExp field)))
          (calls (snd (typeSchema validRegExp field)) @ requiredCalls field))"

text \<open>
  The whole synthesizer: the console log and the own properties of the object \<^verbatim>\<open>schema\<close>
  that is handed to \<^verbatim>\<open>Yup.object().shape\<close>, written by \<^verbatim>\<open>schema[field.name] = fieldSchema\<close>.
\<close>

definition generateValidationSchema ::
  "(string \<Rightarrow> bool) \<Rightarrow> field list \<Rightarrow> (string \<rightharpoonup> string) \<Rightarrow> string list \<times> (string \<rightharpoonup> yup)" where
  "generateValidationSchema validRegExp fields selectedValues =
     fold (\<lambda>field (log, schema).
             (log @ fst (fieldSchema validRegExp field),
              setProperty schema (name field) (snd (fieldSchema validRegExp field))))
       (getAllFields fields selectedValues) ([], Map.empty)"


section \<open>Initial values (\<^verbatim>\<open>getInitialValues\<close>)\<close>

text \<open>
  \<^verbatim>\<open>
  allFields.forEach((field) => {
    if (field.type === "checkbox") { initialValues[field.name] = false; }
    else if (field.type === "number") { initialValues[field.name] = undefined; }
    else if (field.type === "file") { initialValues[field.name] = null; }
    else { initialValues[field.name] = ""; }
  });
  \<close>
\<close>

definition initialValue :: "field \<Rightarrow> jsvalue" where
  "initialValue field =
     (if ftype field = ''checkbox'' then VBool False
      else if ftype field = ''number'' then VUndefined
      else if ftype field = ''file'' then VNull
      else VString [])"

text \<open>The own properties of the object \<^verbatim>\<open>initialValues\<close> that is returned.\<close>

definition getInitialValues :: "field list \<Rightarrow> (string \<rightharpoonup> string) \<Rightarrow> (string \<rightharpoonup> jsvalue)" where
  "getInitialValues fields selectedValues =
     fold (\<lambda>field initialValues. setProperty initialValues (name field) (initialValue field))
       (getAllFields fields selectedValues) Map.empty"

text \<open>
  A value that is absent: the test \<^verbatim>\<open>value === null || value === undefined\<close> of the submit
  handler.
\<close>

definition absent :: "jsvalue \<Rightarrow> bool" where
  "absent v \<longleftrightarrow> v = VNull \<or> v = VUndefined"


section \<open>The validator (Formik and Yup)\<close>













section \<open>The answer serializer (in \<^verbatim>\<open>handleSubmit\<close>)\<close>

text \<open>
  \<^verbatim>\<open>
  const allFields = getAllFields(form.fields, selectedValues);
  const hasFileFields = allFields.some((f) => f.type === "file");
  const answers = [];
  const formData = hasFileFields ? new FormData() : null;
  Object.entries(values).forEach(([name, value]) => {
    const fieldExists = allFields.some((f) => {
      if (name.startsWith(`${f.name}_`)) {
        const parentField = form.fields.find((pf) => name.startsWith(`${pf.name}_`));
        if (parentField) {
          const nestedFieldName = name.replace(`${parentField.name}_`, "");
          const selectedValue = selectedValues[parentField.name] || values[parentField.name];
          const conditionalFields = parentField.conditionalFields?.[selectedValue] || [];
          return conditionalFields.some((nf) => nf.name === nestedFieldName);
        }
      }
      return f.name === name;
    });
    if (fieldExists) {
      const field = allFields.find((f) => f.name === name || name.startsWith(`${f.name}_`));
      if (field?.type === "file") {
        if (value instanceof File) {
          if (formData) { formData.append(name, value); }
          answers.push({ name, value: value.name });
        } else if (field.required) {
          answers.push({ name, value: "" });
        }
      } else {
        let stringValue = "";
        if (value === null || value === undefined) { stringValue = ""; }
        else if (typeof value === "boolean") { stringValue = value ? "true" : "false"; }
        else if (value instanceof Date) { stringValue = value.toISOString().split("T")[0]; }
        else { stringValue = String(value); }
        answers.push({ name, value: stringValue });
      }
    }
  });
  \<close>
  \<open>values\<close> is the list \<^verbatim>\<open>Object.entries(values)\<close>, the form's values in their order.
\<close>

text \<open>\<^verbatim>\<open>String(value)\<close>, also the property key a value turns into.\<close>

fun toString :: "jsvalue \<Rightarrow> string" where
  "toString VUndefined = ''undefined''"
| "toString VNull = ''null''"
| "toString (VBool b) = (if b then ''true'' else ''false'')"
| "toString (VString s) = s"
| "toString (VFile n) = ''[object File]''"
| "toString (VDate isoString dateString) = dateString"

text \<open>
  The key that \<^verbatim>\<open>selectedValues[parentField.name] || values[parentField.name]\<close> is in
  \<^verbatim>\<open>conditionalFields\<close>: the first operand when it is truthy, else the second, as a string.
\<close>

definition selectedValueKey ::
  "(string \<rightharpoonup> string) \<Rightarrow> (string \<times> jsvalue) list \<Rightarrow> field \<Rightarrow> string" where
  "selectedValueKey selectedValues values pf =
     (case selectedKey selectedValues (name pf) of
        Some selectedValue \<Rightarrow> selectedValue
      | None \<Rightarrow>
          (case getProperty (map_of values) (name pf) of
             Own v \<Rightarrow> toString v
           | Inherited member \<Rightarrow> inheritedToString member
           | Missing \<Rightarrow> toString VUndefined))"

text \<open>
  What the handler can throw while it collects the answers: the \<^verbatim>\<open>TypeError\<close> of calling
  \<^verbatim>\<open>conditionalFields.some\<close> on a value that has no such method. It is caught at the end
  of \<^verbatim>\<open>handleSubmit\<close>, which then shows "Error submitting form. Please try again." and
  submits nothing.
\<close>

datatype error = SomeIsNotAFunction

text \<open>
  \<^verbatim>\<open>parentField.conditionalFields?.[selectedValue] || []\<close>, as the receiver of \<^verbatim>\<open>.some\<close>:
  the array that is searched, or the error. There is no \<^verbatim>\<open>Array.isArray\<close> guard here, so a
  truthy value that is not an array, an inherited member among them, is called upon as it
  is.
\<close>

definition branchOf :: "field \<Rightarrow> string \<Rightarrow> error + field list" where
  "branchOf pf selectedValue =
     (case conditionalFields pf of
        None \<Rightarrow> Inr []
      | Some cf \<Rightarrow>
          (case getProperty (map_of cf) selectedValue of
             Own (FieldArray nested) \<Rightarrow> Inr nested
           | Own (OtherValue isTruthy) \<Rightarrow> if isTruthy then Inl SomeIsNotAFunction else Inr []
           | Inherited member \<Rightarrow> Inl SomeIsNotAFunction
           | Missing \<Rightarrow> Inr []))"

text \<open>\<^verbatim>\<open>array.some(callback)\<close> with a callback that may throw: it stops at the first hit.\<close>

fun arraySome :: "('a \<Rightarrow> error + bool) \<Rightarrow> 'a list \<Rightarrow> error + bool" where
  "arraySome callback [] = Inr False"
| "arraySome callback (x # xs) =
     (case callback x of
        Inl e \<Rightarrow> Inl e
      | Inr hit \<Rightarrow> if hit then Inr True else arraySome callback xs)"

definition fieldExists ::
  "field list \<Rightarrow> (string \<rightharpoonup> string) \<Rightarrow> (string \<times> jsvalue) list \<Rightarrow> field list \<Rightarrow> string
     \<Rightarrow> error + bool" where
  "fieldExists fields selectedValues values allFields n =
     arraySome (\<lambda>f.
        if startsWith n (name f @ ''_'') then
          (case parentField fields n of
             Some pf \<Rightarrow>
               (case branchOf pf (selectedValueKey selectedValues values pf) of
                  Inl e \<Rightarrow> Inl e
                | Inr nestedFields \<Rightarrow>
                    Inr (list_ex (\<lambda>nf. name nf = replaceFirst (name pf @ ''_'') n) nestedFields))
           | None \<Rightarrow> Inr (name f = n))
        else Inr (name f = n)) allFields"

definition stringValue :: "jsvalue \<Rightarrow> string" where
  "stringValue v =
     (case v of
        VNull \<Rightarrow> []
      | VUndefined \<Rightarrow> []
      | VBool b \<Rightarrow> (if b then ''true'' else ''false'')
      | VDate isoString dateString \<Rightarrow> takeWhile (\<lambda>c. c \<noteq> CHR ''T'') isoString
      | _ \<Rightarrow> toString v)"

text \<open>
  The state of the loop: the array \<^verbatim>\<open>answers\<close> and the entries appended to
  \<^verbatim>\<open>formData\<close> (\<open>None\<close> when \<^verbatim>\<open>formData\<close> is \<^verbatim>\<open>null\<close>).
\<close>

type_synonym submission = "(string \<times> string) list \<times> (string \<times> jsvalue) list option"

text \<open>What the body of \<^verbatim>\<open>if (fieldExists) { ... }\<close> does to \<^verbatim>\<open>answers\<close> and \<^verbatim>\<open>formData\<close>.\<close>

definition recordEntry :: "field list \<Rightarrow> string \<times> jsvalue \<Rightarrow> submission \<Rightarrow> submission" where
  "recordEntry allFields entry st =
     (let n = fst entry; v = snd entry; answers = fst st; formData = snd st in
      case find (\<lambda>f. name f = n \<or> startsWith n (name f @ ''_'')) allFields of
        Some field \<Rightarrow>
          if ftype field = ''file'' then
            (case v of
               VFile fileName \<Rightarrow>
                 (answers @ [(n, fileName)], map_option (\<lambda>fd. fd @ [(n, v)]) formData)
             | _ \<Rightarrow> if required field then (answers @ [(n, [])], formData) else st)
          else (answers @ [(n, stringValue v)], formData)
      | None \<Rightarrow> (answers @ [(n, stringValue v)], formData))"

text \<open>One round of \<^verbatim>\<open>Object.entries(values).forEach\<close>.\<close>

definition submitEntry ::
  "field list \<Rightarrow> (string \<rightharpoonup> string) \<Rightarrow> (string \<times> jsvalue) list \<Rightarrow> field list \<Rightarrow>
     string \<times> jsvalue \<Rightarrow> submission \<Rightarrow> error + submission" where
  "submitEntry fields selectedValues values allFields entry st =
     (case fieldExists fields selectedValues values allFields (fst entry) of
        Inl e \<Rightarrow> Inl e
      | Inr exists \<Rightarrow> Inr (if exists then recordEntry allFields entry st else st))"

text \<open>A \<^verbatim>\<open>forEach\<close> whose body may throw: the first error ends the loop.\<close>

fun forEachEntry :: "('a \<Rightarrow> 's \<Rightarrow> error + 's) \<Rightarrow> 'a list \<Rightarrow> 's \<Rightarrow> error + 's" where
  "forEachEntry body [] st = Inr st"
| "forEachEntry body (x # xs) st =
     (case body x st of Inl e \<Rightarrow> Inl e | Inr st' \<Rightarrow> forEachEntry body xs st')"

text \<open>
  The part of \<^verbatim>\<open>handleSubmit\<close> that prepares the submission: the answers and the file
  payloads that are sent, or the error that is caught.
\<close>

definition collectAnswers ::
  "field list \<Rightarrow> (string \<rightharpoonup> string) \<Rightarrow> (string \<times> jsvalue) list \<Rightarrow> error + submission" where
  "collectAnswers fields selectedValues values =
     (let allFields = getAllFields fields selectedValues;
          hasFileFields = list_ex (\<lambda>f. ftype f = ''file'') allFields
      in forEachEntry (submitEntry fields selectedValues values allFields) values
           ([], if hasFileFields then Some [] else None))"


section \<open>Example schemas\<close>

definition noValidation :: validation where
  "noValidation = Validation None None None None None None"

text \<open>
  A required radio field "Contact Method" with the options Email and Phone; under Email, a
  required email field "Email Address". The names are what the editor's normalizer makes
  of the labels.
\<close>

definition emailAddressField :: field where
  "emailAddressField =
     Field (generateFieldName ''Email Address'') ''Email Address'' ''email'' True [] noValidation None"

definition contactMethodField :: field where
  "contactMethodField =
     Field (generateFieldName ''Contact Method'') ''Contact Method'' ''radio'' True
       [''Email'', ''Phone''] noValidation (Some [(''Email'', FieldArray [emailAddressField])])"

definition fullNameField :: field where
  "fullNameField =
     Field (generateFieldName ''Full Name'') ''Full Name'' ''text'' True [] noValidation None"


text \<open>
  Two radio fields whose names are \<open>a\<close> and \<open>a_b\<close> (the normalizer makes \<open>a_b\<close> of the
  label "A B"). Under its option A the first has a text field \<open>b_x\<close>; the second has a
  text field \<open>x\<close> under A and nothing under B.
\<close>

definition nestedBX :: field where
  "nestedBX = Field ''b_x'' ''B X'' ''text'' False [] noValidation None"

definition nestedX :: field where
  "nestedX = Field ''x'' ''X'' ''text'' False [] noValidation None"

definition fieldA :: field where
  "fieldA = Field ''a'' ''A'' ''radio'' False [''A'', ''B''] noValidation
     (Some [(''A'', FieldArray [nestedBX])])"

definition fieldAB :: field where
  "fieldAB = Field ''a_b'' ''A B'' ''radio'' False [''A'', ''B''] noValidation
     (Some [(''A'', FieldArray [nestedX]), (''B'', FieldArray [])])"


text \<open>
  A radio field \<open>reply\<close> whose two branches both declare a text field \<open>details\<close>.
\<close>

definition detailsField :: field where
  "detailsField = Field ''details'' ''Details'' ''text'' False [] noValidation None"

definition replyField :: field where
  "replyField = Field ''reply'' ''Reply'' ''radio'' False [''Email'', ''Phone''] noValidation
     (Some [(''Email'', FieldArray [detailsField]), (''Phone'', FieldArray [detailsField])])"


text \<open>
  The radio field \<open>a\<close> again, this time with a checkbox \<open>b_x\<close> under its option A, and a
  text field whose name is the key \<^verbatim>\<open>__proto__\<close> (the page takes the names of a stored
  schema as they are).
\<close>

definition nestedConsent :: field where
  "nestedConsent = Field ''b_x'' ''B X'' ''checkbox'' False [] noValidation None"

definition fieldAConsent :: field where
  "fieldAConsent = Field ''a'' ''A'' ''radio'' False [''A'', ''B''] noValidation
     (Some [(''A'', FieldArray [nestedConsent])])"

definition protoField :: field where
  "protoField = Field ''__proto__'' ''Proto'' ''text'' False [] noValidation None"


text \<open>Fields of further kinds: a kind the page does not know, and constrained text fields.\<close>

definition colorField :: field where
  "colorField = Field ''favorite_color'' ''Favorite Color'' ''color'' True [] noValidation None"




definition ageField :: field where
  "ageField =
     Field ''age'' ''Age'' ''number'' True [] (Validation None None (Some 18) (Some 65) None None) None"

definition agreeField :: field where
  "agreeField = Field ''agree'' ''I agree'' ''checkbox'' True [] noValidation None"

definition resumeField :: field where
  "resumeField = Field ''resume'' ''Resume'' ''file'' False [] noValidation None"




section \<open>Field identity in the editor (\<^verbatim>\<open>DraggableFieldList\<close>)\<close>

text \<open>
  A field object as the editor holds it: the properties of a form field (\<open>props\<close>), its
  \<^verbatim>\<open>order\<close>, the persisted id \<^verbatim>\<open>_id\<close> and the drag identity \<^verbatim>\<open>_dragId\<close> (\<open>None\<close> when the
  property is missing). Ids are strings, so \<^verbatim>\<open>String(field._id)\<close> is the id itself.
\<close>

datatype editorField = EditorField
  (u_dragId: "string option")
  (u_id: "string option")
  (e_order: nat)
  (props: field)

text \<open>
  \<^verbatim>\<open>
  const generateStableId = (field, index) => {
    if (field._dragId) return field._dragId;
    if (field._id) return String(field._id);
    if (field.name) return `field-${field.name}`;
    return `field-temp-${index}`;
  };
  \<close>
\<close>

definition generateStableId :: "editorField \<Rightarrow> nat \<Rightarrow> string" where
  "generateStableId field index =
     (if truthy (u_dragId field) then the (u_dragId field)
      else if truthy (u_id field) then the (u_id field)
      else if name (props field) \<noteq> [] then ''field-'' @ name (props field)
      else ''field-temp-'' @ stringOfNat index)"

text \<open>\<^verbatim>\<open>{ ...field, _dragId: d }\<close> and \<^verbatim>\<open>{ ...field, order: i }\<close>\<close>

fun withDragId :: "string \<Rightarrow> editorField \<Rightarrow> editorField" where
  "withDragId d (EditorField _ i ord p) = EditorField (Some d) i ord p"

fun withOrder :: "nat \<Rightarrow> editorField \<Rightarrow> editorField" where
  "withOrder ord (EditorField d i _ p) = EditorField d i ord p"

text \<open>
  \<^verbatim>\<open>
  fields.map((field, index) => ({ ...field, _dragId: generateStableId(field, index) }))
  \<close>
\<close>

definition fieldsWithStableIds :: "editorField list \<Rightarrow> editorField list" where
  "fieldsWithStableIds fields =
     map (\<lambda>(index, field). withDragId (generateStableId field index) field) (enumerate 0 fields)"

text \<open>
  \<^verbatim>\<open>
  const handleDragEnd = (result) => {
    if (!result.destination) return;
    if (result.source.index === result.destination.index) return;
    const items = Array.from(fieldsWithStableIds);
    const [reorderedItem] = items.splice(result.source.index, 1);
    items.splice(result.destination.index, 0, reorderedItem);
    const updatedFields = items.map((field, index) => ({
      ...field, order: index,
      _dragId: field._dragId || generateStableId(field, index),
    }));
    onFieldsChange(updatedFields);
  };
  \<close>
  The outcome is \<open>Ignored\<close> for the two early returns and \<open>FieldsChanged\<close> with the
  argument of \<^verbatim>\<open>onFieldsChange\<close> otherwise. When the source index is not an index of the
  list, \<^verbatim>\<open>splice\<close> removes nothing, \<^verbatim>\<open>undefined\<close> is inserted and reading its \<^verbatim>\<open>_dragId\<close>
  throws a \<^verbatim>\<open>TypeError\<close>: the outcome \<open>Thrown\<close>.
\<close>

datatype dragOutcome = Ignored | Thrown | FieldsChanged "editorField list"

text \<open>\<^verbatim>\<open>items.splice(start, 0, item)\<close>: a start past the end inserts at the end.\<close>

definition spliceIn :: "nat \<Rightarrow> 'a \<Rightarrow> 'a list \<Rightarrow> 'a list" where
  "spliceIn start item items = take start items @ [item] @ drop start items"

text \<open>The array after \<^verbatim>\<open>items.splice(start, 1)\<close>, for an index of the array.\<close>

definition spliceOut :: "nat \<Rightarrow> 'a list \<Rightarrow> 'a list" where
  "spliceOut start items = take start items @ drop (Suc start) items"

definition updatedField :: "nat \<Rightarrow> editorField \<Rightarrow> editorField" where
  "updatedField index field =
     withDragId (if truthy (u_dragId field) then the (u_dragId field)
                 else generateStableId field index)
       (withOrder index field)"

definition handleDragEnd :: "editorField list \<Rightarrow> nat \<Rightarrow> nat option \<Rightarrow> dragOutcome" where
  "handleDragEnd fields sourceIndex destination =
     (case destination of
        None \<Rightarrow> Ignored
      | Some destinationIndex \<Rightarrow>
          if sourceIndex = destinationIndex then Ignored
          else
            let items = fieldsWithStableIds fields in
            if sourceIndex < length items then
              let reorderedItem = items ! sourceIndex;
                  items = spliceIn destinationIndex reorderedItem (spliceOut sourceIndex items)
              in FieldsChanged (map (\<lambda>(index, field). updatedField index field) (enumerate 0 items))
            else Thrown)"

text \<open>Where the field at index \<open>k\<close> stands after the item at \<open>source\<close> was moved to \<open>dest\<close>.\<close>

definition newPosition :: "nat \<Rightarrow> nat \<Rightarrow> nat \<Rightarrow> nat" where
  "newPosition source dest k =
     (if k = source then dest
      else if source < k \<and> k \<le> dest then k - 1
      else if dest \<le> k \<and> k < source then k + 1
      else k)"

text \<open>Three fields of the editor: one with a drag identity, one persisted, one new and unnamed.\<close>

definition draggedField :: editorField where
  "draggedField = EditorField (Some ''field_1700000000000_k3j9x2a1b'') None 0 fullNameField"

definition persistedField :: editorField where
  "persistedField = EditorField None (Some ''65a1f0c2e4b0a1b2c3d4e5f6'') 1 contactMethodField"

definition unnamedField :: editorField where
  "unnamedField = EditorField None None 2 (Field [] [] ''text'' False [] noValidation None)"


section \<open>The expander on a store of objects\<close>

text \<open>
  Whether \<^verbatim>\<open>getAllFields\<close> changes the objects it is given is a question about references,
  so here the objects live in a store: a list of cells, an address being an index. A cell
  is a field object, whose \<^verbatim>\<open>conditionalFields\<close> maps an option to the address of an
  array, or an array of addresses. Allocation appends a cell. The steps of the source that
  touch the store are \<^verbatim>\<open>[...fields]\<close> and \<^verbatim>\<open>{ ...nestedField }\<close> (allocate a copy),
  \<^verbatim>\<open>nestedFieldCopy.name = ...\<close> (write a property) and \<^verbatim>\<open>allFields.push(...)\<close> (write an
  array). The result is \<open>None\<close> when an address does not hold what the source expects of
  it (no such store arises from a parsed schema).
\<close>

type_synonym addr = nat

datatype cell =
    FieldObject
      (o_name: string)
      (o_label: string)
      (o_type: string)
      (o_required: bool)
      (o_options: "string list")
      (o_validation: validation)
      (o_conditionalFields: "(string \<times> addr) list option")
  | ArrayObject (elements: "addr list")

type_synonym store = "cell list"

definition lookup :: "store \<Rightarrow> addr \<Rightarrow> cell option" where
  "lookup s a = (if a < length s then Some (s ! a) else None)"

definition alloc :: "cell \<Rightarrow> store \<Rightarrow> store \<times> addr" where
  "alloc c s = (s @ [c], length s)"

text \<open>\<^verbatim>\<open>object.name = n\<close>\<close>

definition setName :: "addr \<Rightarrow> string \<Rightarrow> store \<Rightarrow> store option" where
  "setName a n s =
     (case lookup s a of
        Some (FieldObject _ l t r os v cf) \<Rightarrow> Some (s[a := FieldObject n l t r os v cf])
      | _ \<Rightarrow> None)"

text \<open>\<^verbatim>\<open>array.push(item)\<close>\<close>

definition push :: "addr \<Rightarrow> addr \<Rightarrow> store \<Rightarrow> store option" where
  "push array item s =
     (case lookup s array of
        Some (ArrayObject es) \<Rightarrow> Some (s[array := ArrayObject (es @ [item])])
      | _ \<Rightarrow> None)"

text \<open>A \<^verbatim>\<open>forEach\<close> whose body may fail.\<close>

fun forEach :: "('a \<Rightarrow> store \<Rightarrow> store option) \<Rightarrow> 'a list \<Rightarrow> store \<Rightarrow> store option" where
  "forEach body [] s = Some s"
| "forEach body (x # xs) s = (case body x s of None \<Rightarrow> None | Some s' \<Rightarrow> forEach body xs s')"

text \<open>
  The body of the inner loop:
  \<^verbatim>\<open>
  const nestedFieldCopy = { ...nestedField };
  nestedFieldCopy.name = `${field.name}_${nestedField.name}`;
  allFields.push(nestedFieldCopy);
  \<close>
\<close>

definition pushCopy :: "addr \<Rightarrow> string \<Rightarrow> addr \<Rightarrow> store \<Rightarrow> store option" where
  "pushCopy allFields fieldName nestedField s =
     (case lookup s nestedField of
        Some (FieldObject n l t r os v cf) \<Rightarrow>
          (let (s1, nestedFieldCopy) = alloc (FieldObject n l t r os v cf) s in
           case setName nestedFieldCopy (qualify fieldName n) s1 of
             None \<Rightarrow> None
           | Some s2 \<Rightarrow> push allFields nestedFieldCopy s2)
      | _ \<Rightarrow> None)"

text \<open>
  The body of the outer loop, for the field at address \<open>field\<close>. A branch value that is
  not an array is expanded to nothing, as \<^verbatim>\<open>Array.isArray(...) ? ... : []\<close> does.
\<close>

definition expandFieldRef :: "(string \<rightharpoonup> string) \<Rightarrow> addr \<Rightarrow> addr \<Rightarrow> store \<Rightarrow> store option" where
  "expandFieldRef selectedValues allFields field s =
     (case lookup s field of
        Some (FieldObject n l t r os v cf) \<Rightarrow>
          if (t = ''radio'' \<or> t = ''select'') \<and> cf \<noteq> None then
            (case selectedKey selectedValues n of
               Some selectedValue \<Rightarrow>
                 (case getProperty (map_of (the cf)) selectedValue of
                    Own branch \<Rightarrow>
                      (case lookup s branch of
                         Some (ArrayObject nestedFields) \<Rightarrow>
                           forEach (pushCopy allFields n) nestedFields s
                       | Some _ \<Rightarrow> Some s
                       | None \<Rightarrow> None)
                  | _ \<Rightarrow> Some s)
             | None \<Rightarrow> Some s)
          else Some s
      | _ \<Rightarrow> None)"

text \<open>
  \<^verbatim>\<open>getAllFields\<close> on the store: \<open>fields\<close> is the address of the array of top-level
  fields; the result is the new store and the address of \<^verbatim>\<open>allFields\<close>.
\<close>

definition getAllFieldsRef :: "store \<Rightarrow> addr \<Rightarrow> (string \<rightharpoonup> string) \<Rightarrow> (store \<times> addr) option" where
  "getAllFieldsRef s fields selectedValues =
     (case lookup s fields of
        Some (ArrayObject fs) \<Rightarrow>
          (let (s1, allFields) = alloc (ArrayObject fs) s in
           case forEach (expandFieldRef selectedValues allFields) fs s1 of
             None \<Rightarrow> None
           | Some s' \<Rightarrow> Some (s', allFields))
      | _ \<Rightarrow> None)"

text \<open>
  The store of the contact-method schema: the nested field, the array of the Email branch,
  the radio field, and the array of top-level fields at address 3.
\<close>

definition contactStore :: store where
  "contactStore =
     [FieldObject ''email_address'' ''Email Address'' ''email'' True [] noValidation None,
      ArrayObject [0],
      FieldObject ''contact_method'' ''Contact Method'' ''radio'' True [''Email'', ''Phone'']
        noValidation (Some [(''Email'', 1)]),
      ArrayObject [2]]"


section \<open>Notions used in the statements and proofs\<close>

text \<open>
  The top-level names of a schema are prefix-free when no name followed by the separator
  starts another name followed by the separator (so \<open>a\<close> and \<open>a_b\<close> are not, while
  \<open>contact_method\<close> and \<open>full_name\<close> are).
\<close>

definition prefixFree :: "field list \<Rightarrow> bool" where
  "prefixFree fields \<longleftrightarrow>
     (\<forall>q \<in> set fields. \<forall>r \<in> set fields.
        startsWith (name r @ ''_'') (name q @ ''_'') \<longrightarrow> name q = name r)"

text \<open>The last field of a list that has a given name.\<close>

definition lastNamed :: "string \<Rightarrow> field list \<Rightarrow> field option" where
  "lastNamed n fs = find (\<lambda>f. name f = n) (rev fs)"


text \<open>The names under which files were appended to \<^verbatim>\<open>formData\<close>.\<close>

definition formDataNames :: "submission \<Rightarrow> string set" where
  "formDataNames st = (case snd st of None \<Rightarrow> {} | Some fd \<Rightarrow> fst ` set fd)"


text \<open>The nine kinds of field the form page knows.\<close>

definition knownTypes :: "string list" where
  "knownTypes = [''text'', ''textarea'', ''number'', ''email'', ''date'', ''checkbox'',
                 ''radio'', ''select'', ''file'']"


text \<open>
  A store holds a schema at \<open>fields\<close> when that address holds an array of field objects,
  and every value in a \<^verbatim>\<open>conditionalFields\<close> object of these is the address of a cell that,
  when it is an array, holds field objects.
\<close>

definition isField :: "store \<Rightarrow> addr \<Rightarrow> bool" where
  "isField s a = (case lookup s a of Some (FieldObject n l t r os v cf) \<Rightarrow> True | _ \<Rightarrow> False)"

definition isBranch :: "store \<Rightarrow> addr \<Rightarrow> bool" where
  "isBranch s a =
     (case lookup s a of
        Some (ArrayObject es) \<Rightarrow> list_all (isField s) es
      | Some _ \<Rightarrow> True
      | None \<Rightarrow> False)"

definition isSchemaField :: "store \<Rightarrow> addr \<Rightarrow> bool" where
  "isSchemaField s a =
     (case lookup s a of
        Some (FieldObject n l t r os v cf) \<Rightarrow>
          (case cf of None \<Rightarrow> True | Some branches \<Rightarrow> list_all (\<lambda>b. isBranch s (snd b)) branches)
      | _ \<Rightarrow> False)"

definition holdsSchema :: "store \<Rightarrow> addr \<Rightarrow> bool" where
  "holdsSchema s fields =
     (case lookup s fields of
        Some (ArrayObject fs) \<Rightarrow> list_all (isSchemaField s) fs
      | _ \<Rightarrow> False)"

text \<open>
  How a run of the expander may change the store: the first \<open>n\<close> cells stay as they are,
  the store does not shrink, and the array at \<open>allFields\<close> is extended by addresses that
  were not allocated before.
\<close>

definition grows :: "nat \<Rightarrow> addr \<Rightarrow> store \<Rightarrow> store \<Rightarrow> bool" where
  "grows n allFields s s' \<longleftrightarrow>
     take n s' = take n s \<and> length s \<le> length s'
     \<and> (\<exists>es new. lookup s allFields = Some (ArrayObject es)
           \<and> lookup s' allFields = Some (ArrayObject (es @ new))
           \<and> (\<forall>a \<in> set new. length s \<le> a \<and> a < length s'))"


section \<open>Properties of the expander\<close>

lemma expandField_eq:
  "expandField sel f acc = acc @ map (nestedFieldCopy f) (selectedBranch sel f)"
proof -
  have "fold (\<lambda>nf a. a @ [nestedFieldCopy f nf]) ns acc = acc @ map (nestedFieldCopy f) ns" for ns
    by (induction ns arbitrary: acc) simp_all
  then show ?thesis by (simp add: expandField_def)
qed

lemma fold_expandField:
  "fold (expandField sel) fs acc =
     acc @ concat (map (\<lambda>f. map (nestedFieldCopy f) (selectedBranch sel f)) fs)"
  by (induction fs arbitrary: acc) (simp_all add: expandField_eq)

lemma getAllFields_eq:
  "getAllFields fields sel =
     fields @ concat (map (\<lambda>f. map (nestedFieldCopy f) (selectedBranch sel f)) fields)"
  by (simp add: getAllFields_def fold_expandField)

section \<open>Normalized names of the examples\<close>

lemma name_contact_method: "generateFieldName ''Contact Method'' = ''contact_method''"
proof -
  have 1: "toLowerCase ''Contact Method'' = ''contact method''"
    by (simp add: toLowerCase_def)
  have 2: "sanitize ''contact method'' = ''contact_method''"
    by (simp add: sanitize_def isLower_def isDigit_def)
  have 3: "collapse ''contact_method'' = ''contact_method''"
    by simp
  have 4: "trimUnderscores ''contact_method'' = ''contact_method''"
    by (simp add: trimUnderscores_def)
  show ?thesis
    by (simp add: generateFieldName_def 1 2 3 4 isLower_def)
qed

lemma name_email_address: "generateFieldName ''Email Address'' = ''email_address''"
proof -
  have 1: "toLowerCase ''Email Address'' = ''email address''"
    by (simp add: toLowerCase_def)
  have 2: "sanitize ''email address'' = ''email_address''"
    by (simp add: sanitize_def isLower_def isDigit_def)
  have 3: "collapse ''email_address'' = ''email_address''"
    by simp
  have 4: "trimUnderscores ''email_address'' = ''email_address''"
    by (simp add: trimUnderscores_def)
  show ?thesis
    by (simp add: generateFieldName_def 1 2 3 4 isLower_def)
qed

lemma name_full_name: "generateFieldName ''Full Name'' = ''full_name''"
proof -
  have 1: "toLowerCase ''Full Name'' = ''full name''"
    by (simp add: toLowerCase_def)
  have 2: "sanitize ''full name'' = ''full_name''"
    by (simp add: sanitize_def isLower_def isDigit_def)
  have 3: "collapse ''full_name'' = ''full_name''"
    by simp
  have 4: "trimUnderscores ''full_name'' = ''full_name''"
    by (simp add: trimUnderscores_def)
  show ?thesis
    by (simp add: generateFieldName_def 1 2 3 4 isLower_def)
qed

lemma selectedKey_own: "sel n = Some v \<Longrightarrow> v \<noteq> [] \<Longrightarrow> selectedKey sel n = Some v"
  by (simp add: selectedKey_def getProperty_def)

lemma selectedKey_own_cases: "sel n = Some v \<Longrightarrow> selectedKey sel n = (if v = [] then None else Some v)"
  by (simp add: selectedKey_def getProperty_def)

lemma getProperty_no_key:
  "v \<notin> fst ` set cf \<Longrightarrow> getProperty (map_of cf) v = Missing \<or> getProperty (map_of cf) v = Inherited v"
  by (simp add: getProperty_def map_of_eq_None_iff[THEN iffD2])

lemma selectedBranch_no_key:
  assumes "sel (name f) = Some v"
      and "\<forall>cf. conditionalFields f = Some cf \<longrightarrow> v \<notin> fst ` set cf"
  shows "selectedBranch sel f = []"
proof (cases "conditionalFields f")
  case None
  then show ?thesis by (simp add: selectedBranch_def)
next
  case (Some cf)
  with assms(2) have "getProperty (map_of cf) v = Missing \<or> getProperty (map_of cf) v = Inherited v"
    using getProperty_no_key by blast
  then show ?thesis
    using Some assms(1) by (auto simp: selectedBranch_def selectedKey_own_cases)
qed

lemma getAllFields_without:
  assumes "selectedBranch sel f = []"
  shows "getAllFields (before @ f # after) sel
           = before @ f # drop (length before) (getAllFields (before @ after) sel)"
  using assms by (simp add: getAllFields_eq)

lemma contact_email:
  "getAllFields [contactMethodField] [''contact_method'' \<mapsto> ''Email'']
     = [contactMethodField, withName ''contact_method_email_address'' emailAddressField]"
  by (simp add: getAllFields_eq selectedBranch_def selectedKey_def getProperty_def
      contactMethodField_def nestedFieldCopy_def
      qualify_def emailAddressField_def name_contact_method name_email_address)

lemma contact_phone:
  "getAllFields [contactMethodField] [''contact_method'' \<mapsto> ''Phone''] = [contactMethodField]"
  by (simp add: getAllFields_eq selectedBranch_def selectedKey_def getProperty_def
      objectPrototypeKeys_def contactMethodField_def name_contact_method)

subsection \<open>The contact-method scenario\<close>

text \<open>
  Claim C5. The schema is one required radio field "Contact Method" with the options Email
  and Phone, and under Email a required email field "Email Address". With
  \<open>contact_method\<close> set to Email, the effective field list holds \<open>contact_method\<close> and
  \<open>contact_method_email_address\<close>; with Phone, it holds \<open>contact_method\<close> only. In
  general, take any field whose selected value is not a key of its conditional branches
  (whatever is selected for the other fields of the schema): the loop runs over no nested
  field of it, its round leaves the list as it was, and the effective list of a schema with
  that field is the one of the schema without it, with the field put at its place. The
  expander returns in every case (it has no failing branch).
\<close>

theorem C5_conditional_expansion:
  "map name (getAllFields [contactMethodField] [''contact_method'' \<mapsto> ''Email''])
     = [''contact_method'', ''contact_method_email_address'']
   \<and> map name (getAllFields [contactMethodField] [''contact_method'' \<mapsto> ''Phone''])
     = [''contact_method'']
   \<and> (\<forall>field selectedValues selectedValue.
        selectedValues (name field) = Some selectedValue
        \<and> (\<forall>cf. conditionalFields field = Some cf \<longrightarrow> selectedValue \<notin> fst ` set cf)
        \<longrightarrow> selectedBranch selectedValues field = []
            \<and> (\<forall>allFields. expandField selectedValues field allFields = allFields)
            \<and> (\<forall>before after.
                  getAllFields (before @ field # after) selectedValues
                    = before @ field # drop (length before) (getAllFields (before @ after) selectedValues)))"
proof (intro conjI allI impI)
  show "map name (getAllFields [contactMethodField] [''contact_method'' \<mapsto> ''Email''])
     = [''contact_method'', ''contact_method_email_address'']"
    unfolding contact_email
    by (simp add: contactMethodField_def emailAddressField_def name_contact_method)
  show "map name (getAllFields [contactMethodField] [''contact_method'' \<mapsto> ''Phone''])
     = [''contact_method'']"
    unfolding contact_phone
    by (simp add: contactMethodField_def name_contact_method)
next
  fix field :: field and selectedValues :: "string \<rightharpoonup> string" and selectedValue
  assume h: "selectedValues (name field) = Some selectedValue
        \<and> (\<forall>cf. conditionalFields field = Some cf \<longrightarrow> selectedValue \<notin> fst ` set cf)"
  then show none: "selectedBranch selectedValues field = []"
    using selectedBranch_no_key by blast
  show "expandField selectedValues field allFields = allFields" for allFields
    by (simp add: expandField_eq none)
  show "getAllFields (before @ field # after) selectedValues
          = before @ field # drop (length before) (getAllFields (before @ after) selectedValues)"
    for before after
    using none by (rule getAllFields_without)
qed

theorem C5_conditional_expansion_witness:
  "[''contact_method'' \<mapsto> ''Phone''] (name contactMethodField) = Some ''Phone''
   \<and> conditionalFields contactMethodField = Some [(''Email'', FieldArray [emailAddressField])]
   \<and> ''Phone'' \<notin> fst ` set [(''Email'', FieldArray [emailAddressField])]
   \<and> selectedBranch [''contact_method'' \<mapsto> ''Phone''] contactMethodField = []
   \<and> getAllFields [contactMethodField, fullNameField] [''contact_method'' \<mapsto> ''Phone'']
       = [contactMethodField, fullNameField]"
proof -
  have h: "[''contact_method'' \<mapsto> ''Phone''] (name contactMethodField) = Some ''Phone''"
    "conditionalFields contactMethodField = Some [(''Email'', FieldArray [emailAddressField])]"
    by (simp_all add: contactMethodField_def name_contact_method)
  then have "[''contact_method'' \<mapsto> ''Phone''] (name contactMethodField) = Some ''Phone''
      \<and> (\<forall>cf. conditionalFields contactMethodField = Some cf \<longrightarrow> ''Phone'' \<notin> fst ` set cf)"
    by simp
  with C5_conditional_expansion have
    none: "selectedBranch [''contact_method'' \<mapsto> ''Phone''] contactMethodField = []"
    and without: "getAllFields ([] @ contactMethodField # [fullNameField]) [''contact_method'' \<mapsto> ''Phone'']
       = [] @ contactMethodField
           # drop (length ([] :: field list))
               (getAllFields ([] @ [fullNameField]) [''contact_method'' \<mapsto> ''Phone''])"
    by blast+
  have "getAllFields [fullNameField] [''contact_method'' \<mapsto> ''Phone''] = [fullNameField]"
    by (simp add: getAllFields_eq selectedBranch_def fullNameField_def)
  with without have "getAllFields [contactMethodField, fullNameField] [''contact_method'' \<mapsto> ''Phone'']
       = [contactMethodField, fullNameField]"
    by simp
  with h none show ?thesis by simp
qed

section \<open>The order of the effective field list\<close>

lemma contact_full_name:
  "getAllFields [contactMethodField, fullNameField] [''contact_method'' \<mapsto> ''Email'']
     = [contactMethodField, fullNameField, withName ''contact_method_email_address'' emailAddressField]"
  by (simp add: getAllFields_eq selectedBranch_def selectedKey_def getProperty_def
      contactMethodField_def fullNameField_def
      nestedFieldCopy_def qualify_def emailAddressField_def name_contact_method name_email_address
      name_full_name)

text \<open>
  Claim C2, as amended. The effective field list starts with all the top-level fields in
  their declared order; the active conditional fields follow after the last top-level
  field, grouped by parent in the parents' declared order, each group in its declared order.
\<close>

theorem C2_expansion_order:
  "take (length fields) (getAllFields fields selectedValues) = fields
   \<and> drop (length fields) (getAllFields fields selectedValues)
       = concat (map (\<lambda>field. map (nestedFieldCopy field) (selectedBranch selectedValues field)) fields)"
  by (simp add: getAllFields_eq)

text \<open>
  The claim as stated fails: with a text field declared after the radio field, the radio
  field's active child comes after that later sibling, not right after its parent.
\<close>

theorem C2_expansion_order_counterexample:
  "map name (getAllFields [contactMethodField, fullNameField] [''contact_method'' \<mapsto> ''Email''])
     = [''contact_method'', ''full_name'', ''contact_method_email_address'']
   \<and> map name (getAllFields [contactMethodField, fullNameField] [''contact_method'' \<mapsto> ''Email''])
     \<noteq> [''contact_method'', ''contact_method_email_address'', ''full_name'']"
  unfolding contact_full_name
  by (simp add: contactMethodField_def fullNameField_def emailAddressField_def
      name_contact_method name_full_name)

section \<open>The name qualifier\<close>

lemma replaceFirst_prefix:
  "s \<noteq> [] \<Longrightarrow> prefix p s \<Longrightarrow> replaceFirst p s = drop (length p) s"
  by (cases s) simp_all

lemma replaceFirst_qualify: "replaceFirst (a @ ''_'') (qualify a x) = x"
proof -
  have "replaceFirst (a @ ''_'') ((a @ ''_'') @ x) = drop (length (a @ ''_'')) ((a @ ''_'') @ x)"
    by (rule replaceFirst_prefix) simp_all
  then show ?thesis by (simp add: qualify_def)
qed

lemma parentField_Some:
  "parentField fields n = Some pf \<Longrightarrow> pf \<in> set fields \<and> startsWith n (name pf @ ''_'')"
  by (auto simp: parentField_def find_Some_iff)

lemma parentField_exists:
  "f \<in> set fields \<Longrightarrow> startsWith n (name f @ ''_'') \<Longrightarrow> \<exists>pf. parentField fields n = Some pf"
  by (cases "parentField fields n") (auto simp: parentField_def find_None_iff)

lemma name_a_b: "generateFieldName ''A B'' = ''a_b''"
proof -
  have 1: "toLowerCase ''A B'' = ''a b''"
    by (simp add: toLowerCase_def)
  have 2: "sanitize ''a b'' = ''a_b''"
    by (simp add: sanitize_def isLower_def isDigit_def)
  have 3: "collapse ''a_b'' = ''a_b''"
    by simp
  have 4: "trimUnderscores ''a_b'' = ''a_b''"
    by (simp add: trimUnderscores_def)
  show ?thesis
    by (simp add: generateFieldName_def 1 2 3 4 isLower_def)
qed

lemma name_b_x: "generateFieldName ''B X'' = ''b_x''"
proof -
  have 1: "toLowerCase ''B X'' = ''b x''"
    by (simp add: toLowerCase_def)
  have 2: "sanitize ''b x'' = ''b_x''"
    by (simp add: sanitize_def isLower_def isDigit_def)
  have 3: "collapse ''b_x'' = ''b_x''"
    by simp
  have 4: "trimUnderscores ''b_x'' = ''b_x''"
    by (simp add: trimUnderscores_def)
  show ?thesis
    by (simp add: generateFieldName_def 1 2 3 4 isLower_def)
qed

lemma name_a: "generateFieldName ''A'' = ''a''"
  by (simp add: generateFieldName_def toLowerCase_def sanitize_def trimUnderscores_def isLower_def)

lemma name_x: "generateFieldName ''X'' = ''x''"
  by (simp add: generateFieldName_def toLowerCase_def sanitize_def trimUnderscores_def isLower_def)

lemma unqualify_a_b_x: "unqualify [fieldA, fieldAB] ''a_b_x'' = Some (''a'', ''b_x'')"
  by (simp add: unqualify_def parentField_def startsWith_def fieldA_def fieldAB_def)


lemma prefixFree_same:
  assumes "prefixFree fields" and "q \<in> set fields" and "p \<in> set fields"
    and "prefix (name q @ ''_'') (name p @ ''_'' @ x)"
  shows "name q = name p"
proof -
  have "prefix (name p @ ''_'') (name p @ ''_'' @ x)" by simp
  with assms(4) have "prefix (name q @ ''_'') (name p @ ''_'') \<or> prefix (name p @ ''_'') (name q @ ''_'')"
    using prefix_same_cases by blast
  then show ?thesis
    using assms(1-3) unfolding prefixFree_def startsWith_def by metis
qed

lemma qualify_inject:
  assumes "prefixFree fields" and "q \<in> set fields" and "p \<in> set fields"
    and "qualify (name q) y = qualify (name p) x"
  shows "name q = name p \<and> y = x"
proof -
  have "prefix (name q @ ''_'') (name p @ ''_'' @ x)"
    using assms(4) by (metis qualify_def append.assoc prefixI)
  then have "name q = name p" using assms(1-3) prefixFree_same by blast
  with assms(4) show ?thesis by (simp add: qualify_def)
qed

lemma qualify_not_top_level:
  assumes "prefixFree fields" and "f \<in> set fields" and "p \<in> set fields"
  shows "name f \<noteq> qualify (name p) x"
proof
  assume eq: "name f = qualify (name p) x"
  then have "prefix (name p @ ''_'') (name f @ ''_'')" by (simp add: qualify_def)
  then have "name p = name f"
    using assms unfolding prefixFree_def startsWith_def by blast
  with eq have "length (name p) = length (qualify (name p) x)" by simp
  then show False by (simp add: qualify_def)
qed

lemma parentField_qualify:
  assumes "prefixFree fields" and "p \<in> set fields"
  shows "\<exists>pf. parentField fields (qualify (name p) x) = Some pf \<and> pf \<in> set fields \<and> name pf = name p"
proof -
  have "startsWith (qualify (name p) x) (name p @ ''_'')"
    by (simp add: startsWith_def qualify_def)
  with assms(2) obtain pf where pf: "parentField fields (qualify (name p) x) = Some pf"
    using parentField_exists by blast
  then have in_fields: "pf \<in> set fields" and "startsWith (qualify (name p) x) (name pf @ ''_'')"
    using parentField_Some by blast+
  then have "prefix (name pf @ ''_'') (name p @ ''_'' @ x)"
    by (simp add: startsWith_def qualify_def)
  then have "name pf = name p"
    using assms in_fields prefixFree_same by blast
  with pf in_fields show ?thesis by blast
qed

lemma prefixFree_contact: "prefixFree [contactMethodField, fullNameField]"
  by (simp add: prefixFree_def startsWith_def contactMethodField_def fullNameField_def
      name_contact_method name_full_name)

text \<open>
  Claim C1, as amended. The qualifier joins the parent's name and the nested field's local
  name with an underscore, and underscores occur in valid names. When the top-level names
  of the schema are prefix-free, resolving a qualified name the way the submit handler does
  (the first top-level field whose name and an underscore start it, then that prefix
  removed) gives back the parent's name and the local name, whatever the local name is.
\<close>

theorem C1_round_trip:
  assumes "prefixFree fields" and "p \<in> set fields"
  shows "unqualify fields (qualify (name p) localName) = Some (name p, localName)"
proof -
  obtain pf where "parentField fields (qualify (name p) localName) = Some pf" and "name pf = name p"
    using parentField_qualify[OF assms] by blast
  then show ?thesis by (simp add: unqualify_def replaceFirst_qualify)
qed

theorem C1_round_trip_witness:
  "prefixFree [contactMethodField, fullNameField]
   \<and> unqualify [contactMethodField, fullNameField] (qualify (name contactMethodField) ''email_address'')
       = Some (name contactMethodField, ''email_address'')"
proof -
  have "unqualify [contactMethodField, fullNameField] (qualify (name contactMethodField) ''email_address'')
       = Some (name contactMethodField, ''email_address'')"
    by (rule C1_round_trip) (simp_all add: prefixFree_contact)
  then show ?thesis by (simp add: prefixFree_contact)
qed

text \<open>
  The claim as stated fails: the separator does occur in normalized names (the label "A B"
  becomes \<open>a_b\<close>), two different pairs of valid names qualify to the same string
  \<open>a_b_x\<close>, and the submit handler resolves the qualified name of \<open>x\<close> under \<open>a_b\<close> to
  the field \<open>b_x\<close> under \<open>a\<close>.
\<close>

theorem C1_round_trip_counterexample:
  "name fieldA = generateFieldName (label fieldA)
   \<and> name fieldAB = generateFieldName (label fieldAB)
   \<and> name nestedBX = generateFieldName (label nestedBX)
   \<and> name nestedX = generateFieldName (label nestedX)
   \<and> CHR ''_'' \<in> set (name fieldAB)
   \<and> qualify (name fieldA) (name nestedBX) = qualify (name fieldAB) (name nestedX)
   \<and> unqualify [fieldA, fieldAB] (qualify (name fieldAB) (name nestedX)) = Some (name fieldA, name nestedBX)
   \<and> unqualify [fieldA, fieldAB] (qualify (name fieldAB) (name nestedX)) \<noteq> Some (name fieldAB, name nestedX)"
  by (simp add: fieldA_def fieldAB_def nestedBX_def nestedX_def name_a name_a_b name_b_x name_x
      qualify_def unqualify_a_b_x[unfolded fieldA_def fieldAB_def nestedBX_def nestedX_def])

section \<open>Branch isolation and the answer serializer\<close>

lemma name_withName: "name (withName n f) = n"
  by (cases f) simp

lemma name_nestedFieldCopy: "name (nestedFieldCopy q nf) = qualify (name q) (name nf)"
  by (simp add: nestedFieldCopy_def name_withName)

lemma getAllFields_cases:
  assumes "f \<in> set (getAllFields fields sel)"
  shows "f \<in> set fields \<or> (\<exists>q \<in> set fields. \<exists>nf \<in> set (selectedBranch sel q). f = nestedFieldCopy q nf)"
proof -
  from assms have "f \<in> set fields \<or> f \<in> set (concat (map (\<lambda>q. map (nestedFieldCopy q) (selectedBranch sel q)) fields))"
    by (simp add: getAllFields_eq)
  then show ?thesis by auto
qed

lemma selectedBranch_eq:
  "sel (name p) = Some b \<Longrightarrow> branchOf p b = Inr nested
     \<Longrightarrow> selectedBranch sel p = [] \<or> selectedBranch sel p = nested"
  by (auto simp: selectedBranch_def branchOf_def selectedKey_own_cases
      split: option.splits property.splits branch.splits if_splits)

lemma selectedBranch_subset:
  "sel (name p) = Some b \<Longrightarrow> branchOf p b = Inr nested \<Longrightarrow> nf \<in> set (selectedBranch sel p)
     \<Longrightarrow> nf \<in> set nested"
  using selectedBranch_eq[of sel p b nested] by auto

lemma selectedValueKey_selected:
  "sel (name p) = Some b \<Longrightarrow> b \<noteq> [] \<Longrightarrow> selectedValueKey sel vals p = b"
  by (simp add: selectedValueKey_def selectedKey_own)

lemma arraySome_False:
  "(\<And>x. x \<in> set xs \<Longrightarrow> callback x = Inr False) \<Longrightarrow> arraySome callback xs = Inr False"
  by (induction xs) simp_all

lemma arraySome_cong:
  "(\<And>x. x \<in> set xs \<Longrightarrow> callback x = callback' x) \<Longrightarrow> arraySome callback xs = arraySome callback' xs"
  by (induction xs) (auto split: sum.splits)

lemma fieldExists_isolated:
  assumes dist: "distinct (map name fields)"
      and pfree: "prefixFree fields"
      and p: "p \<in> set fields"
      and sel: "sel (name p) = Some b" and b: "b \<noteq> []"
      and branch: "branchOf p b = Inr nested"
      and fresh: "\<forall>nf \<in> set nested. name nf \<noteq> x"
  shows "qualify (name p) x \<notin> set (map name (getAllFields fields sel))"
    and "fieldExists fields sel vals (getAllFields fields sel) (qualify (name p) x) = Inr False"
proof -
  let ?n = "qualify (name p) x"
  have same: "q = p" if "q \<in> set fields" "name q = name p" for q
    using dist p that by (meson distinct_map inj_onD)
  have not_name: "name f \<noteq> ?n" if "f \<in> set (getAllFields fields sel)" for f
  proof
    assume eq: "name f = ?n"
    from getAllFields_cases[OF that] show False
    proof
      assume "f \<in> set fields"
      with eq pfree p show False using qualify_not_top_level by blast
    next
      assume "\<exists>q \<in> set fields. \<exists>nf \<in> set (selectedBranch sel q). f = nestedFieldCopy q nf"
      then obtain q nf where q: "q \<in> set fields" and nf: "nf \<in> set (selectedBranch sel q)"
        and f: "f = nestedFieldCopy q nf" by blast
      from eq f have "qualify (name q) (name nf) = qualify (name p) x"
        by (simp add: name_nestedFieldCopy)
      then have "name q = name p" and x: "name nf = x"
        using qualify_inject[OF pfree q p] by blast+
      with q have "q = p" using same by blast
      with nf sel branch have "nf \<in> set nested" using selectedBranch_subset by blast
      with fresh x show False by blast
    qed
  qed
  then show "?n \<notin> set (map name (getAllFields fields sel))" by force
  obtain pf where pf: "parentField fields ?n = Some pf" and "pf \<in> set fields" and "name pf = name p"
    using parentField_qualify[OF pfree p] by blast
  then have pf_p: "pf = p" using same by blast
  have key: "selectedValueKey sel vals p = b"
    using sel b by (rule selectedValueKey_selected)
  have no_nested: "\<not> list_ex (\<lambda>nf. name nf = replaceFirst (name p @ ''_'') ?n) nested"
    using fresh by (simp add: replaceFirst_qualify list_ex_iff)
  show "fieldExists fields sel vals (getAllFields fields sel) ?n = Inr False"
    unfolding fieldExists_def
  proof (rule arraySome_False)
    fix f assume "f \<in> set (getAllFields fields sel)"
    then have "name f \<noteq> ?n" by (rule not_name)
    then show "(if startsWith ?n (name f @ ''_'') then
          (case parentField fields ?n of
             Some pf \<Rightarrow>
               (case branchOf pf (selectedValueKey sel vals pf) of
                  Inl e \<Rightarrow> Inl e
                | Inr nestedFields \<Rightarrow>
                    Inr (list_ex (\<lambda>nf. name nf = replaceFirst (name pf @ ''_'') ?n) nestedFields))
           | None \<Rightarrow> Inr (name f = ?n))
        else Inr (name f = ?n)) = Inr False"
      using pf pf_p key branch no_nested by simp
  qed
qed

lemma recordEntry_names:
  "fst ` set (fst (recordEntry A e st)) \<subseteq> insert (fst e) (fst ` set (fst st))"
  "formDataNames (recordEntry A e st) \<subseteq> insert (fst e) (formDataNames st)"
  by (auto simp: recordEntry_def formDataNames_def Let_def
      split: option.splits jsvalue.splits if_splits)

lemma submitEntry_names:
  assumes "submitEntry F S V A e st = Inr st'"
  shows "fst ` set (fst st') \<subseteq> fst ` set (fst st) \<union> {n. fieldExists F S V A n = Inr True}"
    and "formDataNames st' \<subseteq> formDataNames st \<union> {n. fieldExists F S V A n = Inr True}"
proof -
  from assms have "st' = st \<or> (fieldExists F S V A (fst e) = Inr True \<and> st' = recordEntry A e st)"
    by (auto simp: submitEntry_def split: sum.splits if_splits)
  then show "fst ` set (fst st') \<subseteq> fst ` set (fst st) \<union> {n. fieldExists F S V A n = Inr True}"
    and "formDataNames st' \<subseteq> formDataNames st \<union> {n. fieldExists F S V A n = Inr True}"
    using recordEntry_names[of A e st] by auto
qed

lemma forEachEntry_names:
  assumes "forEachEntry (submitEntry F S V A) es st = Inr st'"
  shows "fst ` set (fst st') \<subseteq> fst ` set (fst st) \<union> {n. fieldExists F S V A n = Inr True}
       \<and> formDataNames st' \<subseteq> formDataNames st \<union> {n. fieldExists F S V A n = Inr True}"
  using assms
proof (induction es arbitrary: st)
  case Nil
  then show ?case by simp
next
  case (Cons e es)
  from Cons.prems obtain st1 where st1: "submitEntry F S V A e st = Inr st1"
    and rest: "forEachEntry (submitEntry F S V A) es st1 = Inr st'"
    by (auto split: sum.splits)
  from Cons.IH[OF rest] submitEntry_names[OF st1] show ?case by blast
qed

lemma collectAnswers_names:
  assumes "collectAnswers fields sel vals = Inr sub"
  shows "fst ` set (fst sub) \<subseteq> {n. fieldExists fields sel vals (getAllFields fields sel) n = Inr True}"
    and "formDataNames sub \<subseteq> {n. fieldExists fields sel vals (getAllFields fields sel) n = Inr True}"
proof -
  from assms obtain fd where run: "forEachEntry (submitEntry fields sel vals (getAllFields fields sel)) vals ([], fd) = Inr sub"
    and fd: "fd = None \<or> fd = Some []"
    by (auto simp: collectAnswers_def Let_def split: if_splits)
  from fd have "fst ` set (fst ([] :: (string \<times> string) list, fd)) = {}" "formDataNames ([], fd) = {}"
    by (auto simp: formDataNames_def)
  with forEachEntry_names[OF run]
  show "fst ` set (fst sub) \<subseteq> {n. fieldExists fields sel vals (getAllFields fields sel) n = Inr True}"
    and "formDataNames sub \<subseteq> {n. fieldExists fields sel vals (getAllFields fields sel) n = Inr True}"
    by auto
qed

lemma forEachEntry_filter:
  "(\<And>e st. e \<in> set es \<Longrightarrow> \<not> keep e \<Longrightarrow> body e st = Inr st)
     \<Longrightarrow> forEachEntry body (filter keep es) st = forEachEntry body es st"
  by (induction es arbitrary: st) (auto split: sum.splits)

lemma forEachEntry_cong:
  "(\<And>e st. e \<in> set es \<Longrightarrow> body e st = body' e st)
     \<Longrightarrow> forEachEntry body es st = forEachEntry body' es st"
  by (induction es arbitrary: st) (auto split: sum.splits)

lemma map_of_filter_other:
  "k \<noteq> n \<Longrightarrow> map_of (filter (\<lambda>entry. fst entry \<noteq> n) vals) k = map_of vals k"
  by (induction vals) auto

lemma selectedValueKey_filter:
  "name pf \<noteq> n \<Longrightarrow>
   selectedValueKey sel (filter (\<lambda>entry. fst entry \<noteq> n) vals) pf = selectedValueKey sel vals pf"
  by (simp add: selectedValueKey_def getProperty_def map_of_filter_other split: option.splits)

lemma fieldExists_filter:
  assumes "\<forall>pf \<in> set fields. name pf \<noteq> n"
  shows "fieldExists fields sel (filter (\<lambda>entry. fst entry \<noteq> n) vals) A m = fieldExists fields sel vals A m"
  unfolding fieldExists_def
proof (rule arraySome_cong)
  fix f assume "f \<in> set A"
  show "(if startsWith m (name f @ ''_'') then
          (case parentField fields m of
             Some pf \<Rightarrow>
               (case branchOf pf (selectedValueKey sel (filter (\<lambda>entry. fst entry \<noteq> n) vals) pf) of
                  Inl e \<Rightarrow> Inl e
                | Inr nestedFields \<Rightarrow>
                    Inr (list_ex (\<lambda>nf. name nf = replaceFirst (name pf @ ''_'') m) nestedFields))
           | None \<Rightarrow> Inr (name f = m))
        else Inr (name f = m))
      = (if startsWith m (name f @ ''_'') then
          (case parentField fields m of
             Some pf \<Rightarrow>
               (case branchOf pf (selectedValueKey sel vals pf) of
                  Inl e \<Rightarrow> Inl e
                | Inr nestedFields \<Rightarrow>
                    Inr (list_ex (\<lambda>nf. name nf = replaceFirst (name pf @ ''_'') m) nestedFields))
           | None \<Rightarrow> Inr (name f = m))
        else Inr (name f = m))"
  proof (cases "parentField fields m")
    case None
    then show ?thesis by simp
  next
    case (Some pf)
    then have "pf \<in> set fields" using parentField_Some by blast
    with assms have "name pf \<noteq> n" by blast
    then show ?thesis using Some by (simp add: selectedValueKey_filter)
  qed
qed

lemma collectAnswers_filter:
  assumes top: "\<forall>pf \<in> set fields. name pf \<noteq> n"
      and dropped: "fieldExists fields sel vals (getAllFields fields sel) n = Inr False"
  shows "collectAnswers fields sel (filter (\<lambda>entry. fst entry \<noteq> n) vals) = collectAnswers fields sel vals"
proof -
  let ?A = "getAllFields fields sel"
  let ?vals' = "filter (\<lambda>entry. fst entry \<noteq> n) vals"
  have same_body: "submitEntry fields sel ?vals' ?A e st = submitEntry fields sel vals ?A e st" for e st
    by (simp add: submitEntry_def fieldExists_filter[OF top])
  have skip: "submitEntry fields sel vals ?A e st = Inr st" if "\<not> fst e \<noteq> n" for e st
    using that dropped by (simp add: submitEntry_def)
  have "forEachEntry (submitEntry fields sel ?vals' ?A) ?vals' st
          = forEachEntry (submitEntry fields sel vals ?A) ?vals' st" for st
    by (rule forEachEntry_cong) (rule same_body)
  also have "\<dots> st = forEachEntry (submitEntry fields sel vals ?A) vals st" for st
    by (rule forEachEntry_filter) (use skip in blast)
  finally show ?thesis by (simp add: collectAnswers_def Let_def)
qed


lemma branchOf_contact_email: "branchOf contactMethodField ''Email'' = Inr [emailAddressField]"
  by (simp add: branchOf_def getProperty_def contactMethodField_def)

lemma branchOf_contact_phone: "branchOf contactMethodField ''Phone'' = Inr []"
  by (simp add: branchOf_def getProperty_def objectPrototypeKeys_def contactMethodField_def)

lemma name_contactMethodField: "name contactMethodField = ''contact_method''"
  by (simp add: contactMethodField_def name_contact_method)

lemma name_fullNameField: "name fullNameField = ''full_name''"
  by (simp add: fullNameField_def name_full_name)

lemma distinct_contact: "distinct (map name [contactMethodField, fullNameField])"
  by (simp add: contactMethodField_def fullNameField_def name_contact_method name_full_name)

lemma collision_all:
  "getAllFields [fieldA, fieldAB] [''a'' \<mapsto> ''A'', ''a_b'' \<mapsto> ''B'']
     = [fieldA, fieldAB, withName ''a_b_x'' nestedBX]"
  by (simp add: getAllFields_eq selectedBranch_def selectedKey_def getProperty_def
      fieldA_def fieldAB_def nestedFieldCopy_def qualify_def nestedBX_def)

lemma collision_exists:
  "fieldExists [fieldA, fieldAB] [''a'' \<mapsto> ''A'', ''a_b'' \<mapsto> ''B''] vals
     [fieldA, fieldAB, withName ''a_b_x'' nestedBX] ''a'' = Inr True"
  "fieldExists [fieldA, fieldAB] [''a'' \<mapsto> ''A'', ''a_b'' \<mapsto> ''B''] vals
     [fieldA, fieldAB, withName ''a_b_x'' nestedBX] ''a_b'' = Inr True"
  "fieldExists [fieldA, fieldAB] [''a'' \<mapsto> ''A'', ''a_b'' \<mapsto> ''B''] vals
     [fieldA, fieldAB, withName ''a_b_x'' nestedBX] ''a_b_x'' = Inr True"
  by (simp_all add: fieldExists_def parentField_def startsWith_def fieldA_def fieldAB_def
      branchOf_def selectedValueKey_def selectedKey_def getProperty_def nestedBX_def)

lemma collision_record:
  "recordEntry [fieldA, fieldAB, withName ''a_b_x'' nestedBX] (''a'', VString v) (answers, fd)
     = (answers @ [(''a'', v)], fd)"
  "recordEntry [fieldA, fieldAB, withName ''a_b_x'' nestedBX] (''a_b'', VString v) (answers, fd)
     = (answers @ [(''a_b'', v)], fd)"
  "recordEntry [fieldA, fieldAB, withName ''a_b_x'' nestedBX] (''a_b_x'', VString v) (answers, fd)
     = (answers @ [(''a_b_x'', v)], fd)"
  by (simp_all add: recordEntry_def startsWith_def fieldA_def stringValue_def)

lemma collision_answers:
  "collectAnswers [fieldA, fieldAB] [''a'' \<mapsto> ''A'', ''a_b'' \<mapsto> ''B'']
     [(''a'', VString ''A''), (''a_b'', VString ''B''), (''a_b_x'', VString ''stale'')]
   = Inr ([(''a'', ''A''), (''a_b'', ''B''), (''a_b_x'', ''stale'')], None)"
proof -
  have files: "ftype fieldA = ''radio''" "ftype fieldAB = ''radio''"
    "ftype (withName ''a_b_x'' nestedBX) = ''text''"
    by (simp_all add: fieldA_def fieldAB_def nestedBX_def)
  show ?thesis
    unfolding collectAnswers_def Let_def collision_all
    by (simp add: files submitEntry_def collision_exists collision_record)
qed

lemma reply_all:
  "getAllFields [replyField] [''reply'' \<mapsto> ''Phone'']
     = [replyField, withName ''reply_details'' detailsField]"
  by (simp add: getAllFields_eq selectedBranch_def selectedKey_def getProperty_def
      replyField_def nestedFieldCopy_def qualify_def detailsField_def)

lemma reply_exists:
  "fieldExists [replyField] [''reply'' \<mapsto> ''Phone''] vals
     [replyField, withName ''reply_details'' detailsField] ''reply'' = Inr True"
  "fieldExists [replyField] [''reply'' \<mapsto> ''Phone''] vals
     [replyField, withName ''reply_details'' detailsField] ''reply_details'' = Inr True"
  by (simp_all add: fieldExists_def parentField_def startsWith_def replyField_def branchOf_def
      selectedValueKey_def selectedKey_def getProperty_def detailsField_def)

lemma reply_record:
  "recordEntry [replyField, withName ''reply_details'' detailsField] (''reply'', VString v) (answers, fd)
     = (answers @ [(''reply'', v)], fd)"
  "recordEntry [replyField, withName ''reply_details'' detailsField] (''reply_details'', VString v)
     (answers, fd)
     = (answers @ [(''reply_details'', v)], fd)"
  by (simp_all add: recordEntry_def startsWith_def replyField_def stringValue_def)

lemma reply_answers:
  "collectAnswers [replyField] [''reply'' \<mapsto> ''Phone'']
     [(''reply'', VString ''Phone''), (''reply_details'', VString ''typed under Email'')]
   = Inr ([(''reply'', ''Phone''), (''reply_details'', ''typed under Email'')], None)"
proof -
  have files: "ftype replyField = ''radio''"
    "ftype (withName ''reply_details'' detailsField) = ''text''"
    by (simp_all add: replyField_def detailsField_def)
  show ?thesis
    unfolding collectAnswers_def Let_def reply_all
    by (simp add: files submitEntry_def reply_exists reply_record)
qed

text \<open>
  The handler does fail on some selections. With the option \<open>constructor\<close> selected for the
  contact-method field, whose \<^verbatim>\<open>conditionalFields\<close> has no such key, the lookup finds the
  member that every object inherits, and the entry \<open>contact_method_email_address\<close> makes
  the handler call \<^verbatim>\<open>.some\<close> on it: nothing is collected. (The expander guards the same
  lookup with \<^verbatim>\<open>Array.isArray\<close> and expands nothing.)
\<close>

lemma collectAnswers_inherited_member:
  "getAllFields [contactMethodField] [''contact_method'' \<mapsto> ''constructor''] = [contactMethodField]"
  "collectAnswers [contactMethodField] [''contact_method'' \<mapsto> ''constructor'']
     [(''contact_method'', VString ''constructor''),
      (''contact_method_email_address'', VString ''ada@example.org'')]
   = Inl SomeIsNotAFunction"
proof -
  show all: "getAllFields [contactMethodField] [''contact_method'' \<mapsto> ''constructor''] = [contactMethodField]"
    by (simp add: getAllFields_eq selectedBranch_def selectedKey_def getProperty_def
        objectPrototypeKeys_def contactMethodField_def name_contact_method)
  have first: "fieldExists [contactMethodField] [''contact_method'' \<mapsto> ''constructor''] vals
     [contactMethodField] ''contact_method'' = Inr True" for vals
    by (simp add: fieldExists_def startsWith_def name_contactMethodField)
  have second: "fieldExists [contactMethodField] [''contact_method'' \<mapsto> ''constructor''] vals
     [contactMethodField] ''contact_method_email_address'' = Inl SomeIsNotAFunction" for vals
    by (simp add: fieldExists_def parentField_def startsWith_def contactMethodField_def
        name_contact_method branchOf_def selectedValueKey_def selectedKey_def getProperty_def
        objectPrototypeKeys_def)
  show "collectAnswers [contactMethodField] [''contact_method'' \<mapsto> ''constructor'']
     [(''contact_method'', VString ''constructor''),
      (''contact_method_email_address'', VString ''ada@example.org'')]
   = Inl SomeIsNotAFunction"
    unfolding collectAnswers_def Let_def all
    by (simp add: submitEntry_def first second)
qed

text \<open>
  Claim C3, as amended. Take a schema whose top-level names are distinct and prefix-free, a
  top-level field with a nested field under its option A, and a selection state that maps
  the field to a non-empty option B for which the handler's branch lookup gives an array
  (the array stored under B, or the empty one when nothing is stored under B and B names no
  inherited member), an array that holds no field of the same local name. Then the
  qualified name of the nested field is not the name of any entry of the effective field
  list; the handler's test of an entry with that name returns false and throws nothing; the
  outcome of the handler (the answers and file payloads, or an error thrown for another
  entry) is the one it has when the value map does not hold the name; and the answers and
  file payloads, when the handler gets to send them, hold nothing under that name.
\<close>

theorem C3_branch_isolation:
  assumes "distinct (map name fields)"
      and "prefixFree fields"
      and "p \<in> set fields"
      and "branchOf p a = Inr nestedA" and "nestedField \<in> set nestedA"
      and "selectedValues (name p) = Some b" and "b \<noteq> []"
      and "branchOf p b = Inr nestedB"
      and "\<forall>nf \<in> set nestedB. name nf \<noteq> name nestedField"
  shows "qualify (name p) (name nestedField) \<notin> set (map name (getAllFields fields selectedValues))
       \<and> fieldExists fields selectedValues values (getAllFields fields selectedValues)
             (qualify (name p) (name nestedField)) = Inr False
       \<and> collectAnswers fields selectedValues values
           = collectAnswers fields selectedValues
               (filter (\<lambda>entry. fst entry \<noteq> qualify (name p) (name nestedField)) values)
       \<and> (\<forall>sent. collectAnswers fields selectedValues values = Inr sent
             \<longrightarrow> qualify (name p) (name nestedField) \<notin> fst ` set (fst sent)
                 \<and> qualify (name p) (name nestedField) \<notin> formDataNames sent)"
proof -
  let ?n = "qualify (name p) (name nestedField)"
  have absent: "?n \<notin> set (map name (getAllFields fields selectedValues))"
    using assms(1-3,6-9) by (intro fieldExists_isolated(1)[where b = b and nested = nestedB]) auto
  have dropped: "fieldExists fields selectedValues values (getAllFields fields selectedValues) ?n = Inr False"
    using assms(1-3,6-9) by (intro fieldExists_isolated(2)[where b = b and nested = nestedB]) auto
  have top: "\<forall>pf \<in> set fields. name pf \<noteq> ?n"
    using qualify_not_top_level[OF assms(2) _ assms(3)] by blast
  have same: "collectAnswers fields selectedValues values
           = collectAnswers fields selectedValues (filter (\<lambda>entry. fst entry \<noteq> ?n) values)"
    using collectAnswers_filter[OF top dropped] by simp
  have none: "?n \<notin> fst ` set (fst sent) \<and> ?n \<notin> formDataNames sent"
    if "collectAnswers fields selectedValues values = Inr sent" for sent
    using collectAnswers_names[OF that] dropped by auto
  from absent dropped same none show ?thesis by blast
qed

theorem C3_branch_isolation_witness:
  "distinct (map name [contactMethodField, fullNameField])
   \<and> prefixFree [contactMethodField, fullNameField]
   \<and> branchOf contactMethodField ''Email'' = Inr [emailAddressField]
   \<and> branchOf contactMethodField ''Phone'' = Inr []
   \<and> qualify (name contactMethodField) (name emailAddressField) = ''contact_method_email_address''
   \<and> ''contact_method_email_address''
       \<notin> set (map name (getAllFields [contactMethodField, fullNameField] [''contact_method'' \<mapsto> ''Phone'']))
   \<and> collectAnswers [contactMethodField, fullNameField] [''contact_method'' \<mapsto> ''Phone'']
        [(''contact_method'', VString ''Phone''), (''full_name'', VString ''Ada''),
         (''contact_method_email_address'', VString ''ada@example.org'')]
       = collectAnswers [contactMethodField, fullNameField] [''contact_method'' \<mapsto> ''Phone'']
           [(''contact_method'', VString ''Phone''), (''full_name'', VString ''Ada'')]
   \<and> collectAnswers [contactMethodField, fullNameField] [''contact_method'' \<mapsto> ''Phone'']
        [(''contact_method'', VString ''Phone''), (''full_name'', VString ''Ada''),
         (''contact_method_email_address'', VString ''ada@example.org'')]
       = Inr ([(''contact_method'', ''Phone''), (''full_name'', ''Ada'')], None)"
proof -
  let ?sel = "[''contact_method'' \<mapsto> ''Phone'']"
  let ?vals = "[(''contact_method'', VString ''Phone''), (''full_name'', VString ''Ada''),
         (''contact_method_email_address'', VString ''ada@example.org'')]"
  have q: "qualify (name contactMethodField) (name emailAddressField) = ''contact_method_email_address''"
    by (simp add: qualify_def contactMethodField_def emailAddressField_def
        name_contact_method name_email_address)
  have sel: "?sel (name contactMethodField) = Some ''Phone''"
    by (simp add: contactMethodField_def name_contact_method)
  have "qualify (name contactMethodField) (name emailAddressField)
          \<notin> set (map name (getAllFields [contactMethodField, fullNameField] ?sel))
       \<and> fieldExists [contactMethodField, fullNameField] ?sel ?vals
             (getAllFields [contactMethodField, fullNameField] ?sel)
             (qualify (name contactMethodField) (name emailAddressField)) = Inr False
       \<and> collectAnswers [contactMethodField, fullNameField] ?sel ?vals
           = collectAnswers [contactMethodField, fullNameField] ?sel
               (filter (\<lambda>entry. fst entry \<noteq> qualify (name contactMethodField) (name emailAddressField)) ?vals)
       \<and> (\<forall>sent. collectAnswers [contactMethodField, fullNameField] ?sel ?vals = Inr sent
             \<longrightarrow> qualify (name contactMethodField) (name emailAddressField) \<notin> fst ` set (fst sent)
                 \<and> qualify (name contactMethodField) (name emailAddressField) \<notin> formDataNames sent)"
    by (rule C3_branch_isolation[where a = "''Email''" and b = "''Phone''"
          and nestedA = "[emailAddressField]" and nestedB = "[]"])
       (simp_all add: name_contactMethodField name_fullNameField prefixFree_contact
          branchOf_contact_email branchOf_contact_phone)
  then have absent: "''contact_method_email_address''
          \<notin> set (map name (getAllFields [contactMethodField, fullNameField] ?sel))"
    and same: "collectAnswers [contactMethodField, fullNameField] ?sel ?vals
           = collectAnswers [contactMethodField, fullNameField] ?sel
               [(''contact_method'', VString ''Phone''), (''full_name'', VString ''Ada'')]"
    unfolding q by simp_all
  have all: "getAllFields [contactMethodField, fullNameField] ?sel = [contactMethodField, fullNameField]"
    by (simp add: getAllFields_eq selectedBranch_def selectedKey_def getProperty_def
        objectPrototypeKeys_def contactMethodField_def fullNameField_def name_contact_method)
  have ex: "fieldExists [contactMethodField, fullNameField] ?sel vals
              [contactMethodField, fullNameField] ''contact_method'' = Inr True"
    "fieldExists [contactMethodField, fullNameField] ?sel vals
              [contactMethodField, fullNameField] ''full_name'' = Inr True" for vals
    by (simp_all add: fieldExists_def startsWith_def name_contactMethodField name_fullNameField)
  have files: "ftype contactMethodField = ''radio''" "ftype fullNameField = ''text''"
    by (simp_all add: contactMethodField_def fullNameField_def)
  have rec: "recordEntry [contactMethodField, fullNameField] (''contact_method'', VString v) (answers, fd)
             = (answers @ [(''contact_method'', v)], fd)"
    "recordEntry [contactMethodField, fullNameField] (''full_name'', VString v) (answers, fd)
             = (answers @ [(''full_name'', v)], fd)" for v answers fd
    by (simp_all add: recordEntry_def startsWith_def name_contactMethodField name_fullNameField
        stringValue_def files)
  have short: "collectAnswers [contactMethodField, fullNameField] ?sel
           [(''contact_method'', VString ''Phone''), (''full_name'', VString ''Ada'')]
         = Inr ([(''contact_method'', ''Phone''), (''full_name'', ''Ada'')], None)"
    unfolding collectAnswers_def Let_def all
    by (simp add: files submitEntry_def ex rec)
  from same short have long: "collectAnswers [contactMethodField, fullNameField] ?sel ?vals
         = Inr ([(''contact_method'', ''Phone''), (''full_name'', ''Ada'')], None)"
    by simp
  show ?thesis
    by (intro conjI)
       (rule distinct_contact prefixFree_contact branchOf_contact_email branchOf_contact_phone
          q absent same long)+
qed

text \<open>
  The claim as stated fails in two ways. With top-level fields \<open>a\<close> and \<open>a_b\<close>, the field
  \<open>a_b\<close> set to B and \<open>a\<close> set to A, the qualified name \<open>a_b_x\<close> of the field \<open>x\<close> of
  branch A of \<open>a_b\<close> is in the effective list (as \<open>b_x\<close> under \<open>a\<close>) and its stale value
  is sent. With a field \<open>reply\<close> whose branches Email and Phone both declare \<open>details\<close>,
  after the change to Phone the name \<open>reply_details\<close> of the Email branch is in the
  effective list and the value typed under Email is sent.
\<close>

theorem C3_branch_isolation_counterexample:
  "branchOf fieldAB ''A'' = Inr [nestedX]
   \<and> branchOf fieldAB ''B'' = Inr []
   \<and> [''a'' \<mapsto> ''A'', ''a_b'' \<mapsto> ''B''] (name fieldAB) = Some ''B''
   \<and> qualify (name fieldAB) (name nestedX) = ''a_b_x''
   \<and> ''a_b_x'' \<in> set (map name (getAllFields [fieldA, fieldAB] [''a'' \<mapsto> ''A'', ''a_b'' \<mapsto> ''B'']))
   \<and> collectAnswers [fieldA, fieldAB] [''a'' \<mapsto> ''A'', ''a_b'' \<mapsto> ''B'']
        [(''a'', VString ''A''), (''a_b'', VString ''B''), (''a_b_x'', VString ''stale'')]
       = Inr ([(''a'', ''A''), (''a_b'', ''B''), (''a_b_x'', ''stale'')], None)
   \<and> branchOf replyField ''Email'' = Inr [detailsField]
   \<and> branchOf replyField ''Phone'' = Inr [detailsField]
   \<and> [''reply'' \<mapsto> ''Phone''] (name replyField) = Some ''Phone''
   \<and> qualify (name replyField) (name detailsField) = ''reply_details''
   \<and> ''reply_details'' \<in> set (map name (getAllFields [replyField] [''reply'' \<mapsto> ''Phone'']))
   \<and> collectAnswers [replyField] [''reply'' \<mapsto> ''Phone'']
        [(''reply'', VString ''Phone''), (''reply_details'', VString ''typed under Email'')]
       = Inr ([(''reply'', ''Phone''), (''reply_details'', ''typed under Email'')], None)"
proof -
  have q1: "qualify (name fieldAB) (name nestedX) = ''a_b_x''"
    by (simp add: qualify_def fieldAB_def nestedX_def)
  have q2: "qualify (name replyField) (name detailsField) = ''reply_details''"
    by (simp add: qualify_def replyField_def detailsField_def)
  have b1: "branchOf fieldAB ''A'' = Inr [nestedX]" "branchOf fieldAB ''B'' = Inr []"
    by (simp_all add: branchOf_def getProperty_def fieldAB_def)
  have b2: "branchOf replyField ''Email'' = Inr [detailsField]"
    "branchOf replyField ''Phone'' = Inr [detailsField]"
    by (simp_all add: branchOf_def getProperty_def replyField_def)
  have s1: "[''a'' \<mapsto> ''A'', ''a_b'' \<mapsto> ''B''] (name fieldAB) = Some ''B''"
    by (simp add: fieldAB_def)
  have s2: "[''reply'' \<mapsto> ''Phone''] (name replyField) = Some ''Phone''"
    by (simp add: replyField_def)
  have n1: "''a_b_x'' \<in> set (map name (getAllFields [fieldA, fieldAB] [''a'' \<mapsto> ''A'', ''a_b'' \<mapsto> ''B'']))"
    unfolding collision_all by (simp add: name_withName)
  have n2: "''reply_details'' \<in> set (map name (getAllFields [replyField] [''reply'' \<mapsto> ''Phone'']))"
    unfolding reply_all by (simp add: name_withName)
  show ?thesis
    unfolding q1 q2 b1 b2 collision_answers reply_answers
    using s1 s2 n1 n2 by simp
qed


section \<open>The rule synthesizer and the initial values\<close>

lemma find_append:
  "find P (xs @ ys) = (case find P xs of None \<Rightarrow> find P ys | Some x \<Rightarrow> Some x)"
  by (induction xs) simp_all

lemma lastNamed_Cons:
  "lastNamed n (f # fs)
     = (case lastNamed n fs of None \<Rightarrow> if name f = n then Some f else None | Some g \<Rightarrow> Some g)"
  by (simp add: lastNamed_def find_append split: option.splits)




lemma fold_setProperty:
  "fold (\<lambda>f m. setProperty m (name f) (g f)) fs m0 n
     = (if n = ''__proto__'' then m0 n
        else case lastNamed n fs of None \<Rightarrow> m0 n | Some f \<Rightarrow> Some (g f))"
proof (induction fs arbitrary: m0)
  case Nil
  then show ?case by (simp add: lastNamed_def)
next
  case (Cons a fs)
  have "fold (\<lambda>f m. setProperty m (name f) (g f)) (a # fs) m0 n
          = fold (\<lambda>f m. setProperty m (name f) (g f)) fs (setProperty m0 (name a) (g a)) n"
    by simp
  also have "\<dots> = (if n = ''__proto__'' then setProperty m0 (name a) (g a) n
        else case lastNamed n fs of None \<Rightarrow> setProperty m0 (name a) (g a) n | Some f \<Rightarrow> Some (g f))"
    by (rule Cons.IH)
  also have "\<dots> = (if n = ''__proto__'' then m0 n
        else case lastNamed n (a # fs) of None \<Rightarrow> m0 n | Some f \<Rightarrow> Some (g f))"
    by (auto simp: setProperty_def lastNamed_Cons split: option.splits)
  finally show ?case .
qed

lemma fold_schema:
  "fold (\<lambda>field (log, schema).
           (log @ fst (fieldSchema v field), setProperty schema (name field) (snd (fieldSchema v field))))
     fs (lg, m)
   = (lg @ concat (map (\<lambda>f. fst (fieldSchema v f)) fs),
      fold (\<lambda>f m. setProperty m (name f) (snd (fieldSchema v f))) fs m)"
  by (induction fs arbitrary: lg m) simp_all


lemma generateValidationSchema_schema:
  "snd (generateValidationSchema v fields sel) n
     = (if n = ''__proto__'' then None
        else map_option (\<lambda>f. snd (fieldSchema v f)) (lastNamed n (getAllFields fields sel)))"
  by (simp add: generateValidationSchema_def fold_schema fold_setProperty split: option.splits)

lemma getInitialValues_eq:
  "getInitialValues fields sel n
     = (if n = ''__proto__'' then None
        else map_option initialValue (lastNamed n (getAllFields fields sel)))"
  by (simp add: getInitialValues_def fold_setProperty split: option.splits)

lemma typeSchema_unknown:
  "ftype field \<notin> set knownTypes \<Longrightarrow> typeSchema v field = ([], Yup YupString [])"
  by (simp add: typeSchema_def knownTypes_def)

lemma requiredCalls_unknown:
  "ftype field \<notin> set knownTypes \<Longrightarrow>
   requiredCalls field =
     (if required field then [Required (label field @ '' is required'')] else [Nullable True, NotRequired])"
  by (simp add: requiredCalls_def knownTypes_def)

lemma fieldSchema_unknown:
  "ftype field \<notin> set knownTypes \<Longrightarrow>
   fieldSchema v field =
     ([], Yup YupString
            (if required field then [Required (label field @ '' is required'')]
             else [Nullable True, NotRequired]))"
  by (simp add: fieldSchema_def typeSchema_unknown requiredCalls_unknown)

text \<open>
  Claim C6, as amended. For a field of the effective list whose kind is none of the nine
  known kinds, rule synthesis does not fail and logs nothing: the \<^verbatim>\<open>default\<close> case of the
  switch gives the field the plain string schema \<^verbatim>\<open>Yup.string()\<close>, followed by
  \<^verbatim>\<open>required(...)\<close> for a required field and by \<^verbatim>\<open>nullable().notRequired()\<close> for an optional
  one. The rule set holds under each name the rule built for the last field of the
  effective list that has the name, and no entry of its own under the key \<^verbatim>\<open>__proto__\<close>;
  so that rule is the entry under the field's name unless a later field has the same name.
\<close>

theorem C6_unknown_kind:
  assumes "field \<in> set (getAllFields fields selectedValues)"
      and "ftype field \<notin> set knownTypes"
  shows "fieldSchema validRegExp field
           = ([], Yup YupString
                    (if required field then [Required (label field @ '' is required'')]
                     else [Nullable True, NotRequired]))
       \<and> (\<forall>n. snd (generateValidationSchema validRegExp fields selectedValues) n
               = (if n = ''__proto__'' then None
                  else map_option (\<lambda>f. snd (fieldSchema validRegExp f))
                         (lastNamed n (getAllFields fields selectedValues))))
       \<and> (lastNamed (name field) (getAllFields fields selectedValues) = Some field
            \<and> name field \<noteq> ''__proto__''
          \<longrightarrow> snd (generateValidationSchema validRegExp fields selectedValues) (name field)
                = Some (Yup YupString
                         (if required field then [Required (label field @ '' is required'')]
                          else [Nullable True, NotRequired])))"
  using assms(2) by (simp add: generateValidationSchema_schema fieldSchema_unknown)

lemma all_color: "getAllFields [colorField] Map.empty = [colorField]"
  by (simp add: getAllFields_eq selectedBranch_def colorField_def)

theorem C6_unknown_kind_witness:
  "colorField \<in> set (getAllFields [colorField] Map.empty)
   \<and> ftype colorField \<notin> set knownTypes
   \<and> lastNamed (name colorField) (getAllFields [colorField] Map.empty) = Some colorField
   \<and> name colorField \<noteq> ''__proto__''
   \<and> fieldSchema (\<lambda>source. True) colorField
       = ([], Yup YupString [Required ''Favorite Color is required''])
   \<and> snd (generateValidationSchema (\<lambda>source. True) [colorField] Map.empty) (name colorField)
       = Some (Yup YupString [Required ''Favorite Color is required''])"
proof -
  have h: "colorField \<in> set (getAllFields [colorField] Map.empty)"
    "ftype colorField \<notin> set knownTypes"
    by (simp_all add: all_color) (simp add: colorField_def knownTypes_def)
  have l: "lastNamed (name colorField) (getAllFields [colorField] Map.empty) = Some colorField"
    "name colorField \<noteq> ''__proto__''"
    by (simp_all add: all_color lastNamed_def) (simp add: colorField_def)
  have r: "required colorField" "label colorField = ''Favorite Color''"
    by (simp_all add: colorField_def)
  from C6_unknown_kind[OF h, of "\<lambda>source. True"] l
  have "fieldSchema (\<lambda>source. True) colorField
       = ([], Yup YupString [Required ''Favorite Color is required''])"
    and "snd (generateValidationSchema (\<lambda>source. True) [colorField] Map.empty) (name colorField)
       = Some (Yup YupString [Required ''Favorite Color is required''])"
    by (simp_all add: r)
  with h l show ?thesis by blast
qed

text \<open>
  The claim as stated fails: for a required field of the unknown kind \<open>color\<close> the
  synthesizer returns a ruleset, with the plain string rule for that field.
\<close>

theorem C6_unknown_kind_counterexample:
  "ftype colorField \<notin> set knownTypes
   \<and> generateValidationSchema (\<lambda>source. True) [colorField] Map.empty
       = ([], [''favorite_color'' \<mapsto> Yup YupString [Required ''Favorite Color is required'']])"
proof -
  have "fieldSchema (\<lambda>source. True) colorField
          = ([], Yup YupString [Required ''Favorite Color is required''])"
    by (simp add: fieldSchema_def typeSchema_def requiredCalls_def colorField_def)
  then show ?thesis
    by (simp add: generateValidationSchema_def all_color setProperty_def)
       (simp add: colorField_def knownTypes_def)
qed

lemma regexCalls_invalid:
  assumes "regex (validation field) = Some source" and "source \<noteq> []" and "\<not> validRegExp source"
  shows "regexCalls validRegExp field = ([''Invalid regex pattern: '' @ source], [])"
  using assms by (simp add: regexCalls_def)








lemma initialValue_kinds:
  "(ftype field \<in> {''text'', ''textarea'', ''email''} \<longrightarrow> initialValue field = VString [])
   \<and> (ftype field = ''checkbox'' \<longrightarrow> initialValue field = VBool False)
   \<and> (ftype field = ''number'' \<longrightarrow> initialValue field = VUndefined)
   \<and> (ftype field = ''file'' \<longrightarrow> initialValue field = VNull)
   \<and> (ftype field \<in> {''number'', ''file''} \<longrightarrow> absent (initialValue field))
   \<and> (ftype field \<in> {''date'', ''select'', ''radio''} \<longrightarrow> initialValue field = VString [])"
  by (auto simp: initialValue_def absent_def)

text \<open>
  Claim C9, as amended. The initial-value map holds under each name the initial value of the
  last field of the effective list that has the name, and no entry of its own under the key
  \<^verbatim>\<open>__proto__\<close>. So for a field that is the last of the list with its name (every field,
  when the names are distinct), the entry under its name is the empty string for a text,
  textarea or email field, \<open>false\<close> for a checkbox, an absent value for a number or file
  field (\<^verbatim>\<open>undefined\<close> for number, \<^verbatim>\<open>null\<close> for file), and the empty string for a date,
  select or radio field.
\<close>

theorem C9_initial_values:
  assumes "lastNamed (name field) (getAllFields fields selectedValues) = Some field"
      and "name field \<noteq> ''__proto__''"
  shows "(\<forall>n. getInitialValues fields selectedValues n
               = (if n = ''__proto__'' then None
                  else map_option initialValue (lastNamed n (getAllFields fields selectedValues))))
       \<and> (ftype field \<in> {''text'', ''textarea'', ''email''}
            \<longrightarrow> getInitialValues fields selectedValues (name field) = Some (VString []))
       \<and> (ftype field = ''checkbox''
            \<longrightarrow> getInitialValues fields selectedValues (name field) = Some (VBool False))
       \<and> (ftype field = ''number''
            \<longrightarrow> getInitialValues fields selectedValues (name field) = Some VUndefined)
       \<and> (ftype field = ''file''
            \<longrightarrow> getInitialValues fields selectedValues (name field) = Some VNull)
       \<and> (ftype field \<in> {''number'', ''file''}
            \<longrightarrow> (\<exists>v. getInitialValues fields selectedValues (name field) = Some v \<and> absent v))
       \<and> (ftype field \<in> {''date'', ''select'', ''radio''}
            \<longrightarrow> getInitialValues fields selectedValues (name field) = Some (VString []))"
proof -
  have v: "getInitialValues fields selectedValues (name field) = Some (initialValue field)"
    using assms by (simp add: getInitialValues_eq)
  have every: "\<forall>n. getInitialValues fields selectedValues n
               = (if n = ''__proto__'' then None
                  else map_option initialValue (lastNamed n (getAllFields fields selectedValues)))"
    by (simp add: getInitialValues_eq)
  have kinds: "(ftype field \<in> {''text'', ''textarea'', ''email''} \<longrightarrow> initialValue field = VString [])"
    "(ftype field = ''checkbox'' \<longrightarrow> initialValue field = VBool False)"
    "(ftype field = ''number'' \<longrightarrow> initialValue field = VUndefined)"
    "(ftype field = ''file'' \<longrightarrow> initialValue field = VNull)"
    "(ftype field \<in> {''number'', ''file''} \<longrightarrow> absent (initialValue field))"
    "(ftype field \<in> {''date'', ''select'', ''radio''} \<longrightarrow> initialValue field = VString [])"
    using initialValue_kinds[of field] by blast+
  show ?thesis
    unfolding v option.inject using every kinds by blast
qed

lemma all_survey:
  "getAllFields [ageField, agreeField, resumeField, fullNameField] Map.empty
     = [ageField, agreeField, resumeField, fullNameField]"
  by (simp add: getAllFields_eq selectedBranch_def ageField_def agreeField_def resumeField_def
      fullNameField_def)

theorem C9_initial_values_witness:
  "lastNamed (name resumeField) (getAllFields [ageField, agreeField, resumeField, fullNameField] Map.empty)
     = Some resumeField
   \<and> name resumeField \<noteq> ''__proto__''
   \<and> ftype resumeField = ''file''
   \<and> getInitialValues [ageField, agreeField, resumeField, fullNameField] Map.empty ''resume''
       = Some VNull
   \<and> absent VNull"
proof -
  have n: "name ageField = ''age''" "name agreeField = ''agree''" "name resumeField = ''resume''"
    "name fullNameField = ''full_name''"
    by (simp_all add: ageField_def agreeField_def resumeField_def name_fullNameField)
  have h: "lastNamed (name resumeField) (getAllFields [ageField, agreeField, resumeField, fullNameField] Map.empty)
     = Some resumeField" "name resumeField \<noteq> ''__proto__''"
    unfolding all_survey by (simp_all add: lastNamed_def n)
  have t: "ftype resumeField = ''file''"
    by (simp add: resumeField_def)
  from C9_initial_values[OF h]
  have "ftype resumeField = ''file''
          \<longrightarrow> getInitialValues [ageField, agreeField, resumeField, fullNameField] Map.empty
                (name resumeField) = Some VNull"
    by blast
  with t n(3)
  have "getInitialValues [ageField, agreeField, resumeField, fullNameField] Map.empty ''resume''
       = Some VNull"
    by simp
  with h t show ?thesis by (simp add: absent_def)
qed

text \<open>
  The claim as stated fails for some effective field lists. With the radio fields \<open>a\<close>
  (a checkbox \<open>b_x\<close> under A) and \<open>a_b\<close> (a text field \<open>x\<close> under A), both set to A, the
  effective list holds a checkbox and, after it, a text field under the one name \<open>a_b_x\<close>,
  and the map gives that name the empty string, not \<open>false\<close>. And a field named
  \<^verbatim>\<open>__proto__\<close> gets no entry in the map at all.
\<close>

theorem C9_initial_values_counterexample:
  "name fieldAConsent = generateFieldName (label fieldAConsent)
   \<and> name fieldAB = generateFieldName (label fieldAB)
   \<and> name nestedConsent = generateFieldName (label nestedConsent)
   \<and> name nestedX = generateFieldName (label nestedX)
   \<and> getAllFields [fieldAConsent, fieldAB] [''a'' \<mapsto> ''A'', ''a_b'' \<mapsto> ''A'']
       = [fieldAConsent, fieldAB, withName ''a_b_x'' nestedConsent, withName ''a_b_x'' nestedX]
   \<and> ftype (withName ''a_b_x'' nestedConsent) = ''checkbox''
   \<and> name (withName ''a_b_x'' nestedConsent) = ''a_b_x''
   \<and> getInitialValues [fieldAConsent, fieldAB] [''a'' \<mapsto> ''A'', ''a_b'' \<mapsto> ''A''] ''a_b_x''
       = Some (VString [])
   \<and> getInitialValues [fieldAConsent, fieldAB] [''a'' \<mapsto> ''A'', ''a_b'' \<mapsto> ''A''] ''a_b_x''
       \<noteq> Some (VBool False)
   \<and> getAllFields [protoField] Map.empty = [protoField]
   \<and> ftype protoField = ''text''
   \<and> getInitialValues [protoField] Map.empty (name protoField) = None
   \<and> getInitialValues [protoField] Map.empty (name protoField) \<noteq> Some (VString [])"
proof -
  have names: "name fieldAConsent = generateFieldName (label fieldAConsent)"
    "name fieldAB = generateFieldName (label fieldAB)"
    "name nestedConsent = generateFieldName (label nestedConsent)"
    "name nestedX = generateFieldName (label nestedX)"
    by (simp_all add: fieldAConsent_def fieldAB_def nestedConsent_def nestedX_def
        name_a name_a_b name_b_x name_x)
  have all: "getAllFields [fieldAConsent, fieldAB] [''a'' \<mapsto> ''A'', ''a_b'' \<mapsto> ''A'']
       = [fieldAConsent, fieldAB, withName ''a_b_x'' nestedConsent, withName ''a_b_x'' nestedX]"
    by (simp add: getAllFields_eq selectedBranch_def selectedKey_def getProperty_def
        fieldAConsent_def fieldAB_def nestedFieldCopy_def qualify_def nestedConsent_def nestedX_def)
  have kinds: "ftype (withName ''a_b_x'' nestedConsent) = ''checkbox''"
    "name (withName ''a_b_x'' nestedConsent) = ''a_b_x''"
    by (simp_all add: nestedConsent_def)
  have init: "getInitialValues [fieldAConsent, fieldAB] [''a'' \<mapsto> ''A'', ''a_b'' \<mapsto> ''A''] ''a_b_x''
       = Some (VString [])"
    unfolding getInitialValues_def all
    by (simp add: setProperty_def initialValue_def fieldAConsent_def fieldAB_def
        nestedConsent_def nestedX_def)
  have pall: "getAllFields [protoField] Map.empty = [protoField]"
    by (simp add: getAllFields_eq selectedBranch_def protoField_def)
  have proto: "ftype protoField = ''text''"
    "getInitialValues [protoField] Map.empty (name protoField) = None"
    unfolding getInitialValues_def pall
    by (simp_all add: setProperty_def protoField_def)
  from names all kinds init pall proto show ?thesis by simp
qed


section \<open>Identity of fields across a reorder\<close>

lemma nth_spliceIn:
  "dest \<le> length xs \<Longrightarrow> j \<le> length xs \<Longrightarrow>
   spliceIn dest x xs ! j = (if j < dest then xs ! j else if j = dest then x else xs ! (j - 1))"
  by (auto simp: spliceIn_def nth_append min_def)

lemma nth_spliceOut:
  "source < length xs \<Longrightarrow> j < length xs - 1 \<Longrightarrow>
   spliceOut source xs ! j = (if j < source then xs ! j else xs ! Suc j)"
  by (auto simp: spliceOut_def nth_append min_def)

lemma length_spliceOut: "source < length xs \<Longrightarrow> length (spliceOut source xs) = length xs - 1"
  by (auto simp: spliceOut_def)

lemma length_spliceIn: "length (spliceIn dest x xs) = Suc (length xs)"
  by (auto simp: spliceIn_def)

lemma newPosition_less:
  "source < n \<Longrightarrow> dest < n \<Longrightarrow> k < n \<Longrightarrow> newPosition source dest k < n"
  by (auto simp: newPosition_def)

lemma nth_moved:
  assumes "source < length xs" and "dest < length xs" and "k < length xs"
  shows "spliceIn dest (xs ! source) (spliceOut source xs) ! newPosition source dest k = xs ! k"
proof -
  have len: "length (spliceOut source xs) = length xs - 1"
    using assms(1) by (rule length_spliceOut)
  have pos: "newPosition source dest k \<le> length (spliceOut source xs)"
    using newPosition_less[OF assms] len by simp
  have d: "dest \<le> length (spliceOut source xs)" using assms(2) len by simp
  show ?thesis
    unfolding nth_spliceIn[OF d pos]
    using assms by (auto simp: newPosition_def nth_spliceOut)
qed


lemma withDragId_same: "u_dragId f = Some d \<Longrightarrow> withDragId d f = f"
  by (cases f) simp

lemma u_dragId_withOrder: "u_dragId (withOrder i f) = u_dragId f"
  by (cases f) simp

lemma generateStableId_token:
  "u_dragId f = Some token \<Longrightarrow> token \<noteq> [] \<Longrightarrow> generateStableId f i = token"
  by (simp add: generateStableId_def)

lemma fieldsWithStableIds_nth:
  assumes "k < length fields"
  shows "fieldsWithStableIds fields ! k = withDragId (generateStableId (fields ! k) k) (fields ! k)"
  using assms by (simp add: fieldsWithStableIds_def nth_enumerate_eq)

lemma fieldsWithStableIds_token:
  assumes "k < length fields" and "u_dragId (fields ! k) = Some token" and "token \<noteq> []"
  shows "fieldsWithStableIds fields ! k = fields ! k"
  using assms by (simp add: fieldsWithStableIds_nth generateStableId_token withDragId_same)

lemma length_fieldsWithStableIds: "length (fieldsWithStableIds fields) = length fields"
  by (simp add: fieldsWithStableIds_def)

lemma updatedField_token:
  assumes "u_dragId f = Some token" and "token \<noteq> []"
  shows "updatedField i f = withOrder i f"
  using assms by (simp add: updatedField_def withDragId_same u_dragId_withOrder)

lemma handleDragEnd_moves:
  assumes s: "source < length fields" and d: "dest < length fields" and ne: "source \<noteq> dest"
  shows "\<exists>updated. handleDragEnd fields source (Some dest) = FieldsChanged updated
           \<and> length updated = length fields
           \<and> (\<forall>k < length fields.
                 updated ! newPosition source dest k
                   = updatedField (newPosition source dest k) (fieldsWithStableIds fields ! k))"
proof -
  let ?items = "fieldsWithStableIds fields"
  let ?moved = "spliceIn dest (?items ! source) (spliceOut source ?items)"
  let ?updated = "map (\<lambda>(index, field). updatedField index field) (enumerate 0 ?moved)"
  have len_items: "length ?items = length fields" by (rule length_fieldsWithStableIds)
  have len_moved: "length ?moved = length fields"
    using s by (simp add: length_spliceIn length_spliceOut len_items)
  have res: "handleDragEnd fields source (Some dest) = FieldsChanged ?updated"
    using s ne by (simp add: handleDragEnd_def Let_def len_items)
  have "?updated ! newPosition source dest k
          = updatedField (newPosition source dest k) (?items ! k)" if "k < length fields" for k
  proof -
    have p: "newPosition source dest k < length fields"
      using s d that by (rule newPosition_less)
    have "?moved ! newPosition source dest k = ?items ! k"
      using s d that by (intro nth_moved) (simp_all add: len_items)
    with p show ?thesis by (simp add: nth_enumerate_eq len_moved)
  qed
  with res len_moved show ?thesis by simp
qed

text \<open>
  Claim C8. The identity of a field is, in this order: its drag identity when it has a
  non-empty one, returned as it is; else its persisted id; else \<open>field-\<close> and its name when
  the name is not empty; else the placeholder \<open>field-temp-\<close> and the position. And for the
  field at index \<open>k\<close> that carries a drag identity, a drag of the item at \<open>source\<close> to
  another index \<open>dest\<close> calls \<^verbatim>\<open>onFieldsChange\<close> with a list of the same length in which
  that field stands at its new position, changed in its \<^verbatim>\<open>order\<close> only: its identity is
  the one it had.
\<close>

theorem C8_stable_identity:
  "(u_dragId field = Some token \<and> token \<noteq> [] \<longrightarrow> generateStableId field index = token)
   \<and> (\<not> truthy (u_dragId field) \<and> u_id field = Some storageId \<and> storageId \<noteq> []
        \<longrightarrow> generateStableId field index = storageId)
   \<and> (\<not> truthy (u_dragId field) \<and> \<not> truthy (u_id field) \<and> name (props field) \<noteq> []
        \<longrightarrow> generateStableId field index = ''field-'' @ name (props field))
   \<and> (\<not> truthy (u_dragId field) \<and> \<not> truthy (u_id field) \<and> name (props field) = []
        \<longrightarrow> generateStableId field index = ''field-temp-'' @ stringOfNat index)
   \<and> (source < length fields \<and> dest < length fields \<and> source \<noteq> dest \<and> k < length fields
        \<and> u_dragId (fields ! k) = Some token \<and> token \<noteq> []
        \<longrightarrow> (\<exists>updated. handleDragEnd fields source (Some dest) = FieldsChanged updated
               \<and> length updated = length fields
               \<and> updated ! newPosition source dest k = withOrder (newPosition source dest k) (fields ! k)
               \<and> u_dragId (updated ! newPosition source dest k) = Some token
               \<and> generateStableId (updated ! newPosition source dest k) (newPosition source dest k)
                   = generateStableId (fields ! k) k))"
proof (intro conjI impI)
  assume a: "source < length fields \<and> dest < length fields \<and> source \<noteq> dest \<and> k < length fields
        \<and> u_dragId (fields ! k) = Some token \<and> token \<noteq> []"
  then obtain updated where u: "handleDragEnd fields source (Some dest) = FieldsChanged updated"
    "length updated = length fields"
    "updated ! newPosition source dest k
       = updatedField (newPosition source dest k) (fieldsWithStableIds fields ! k)"
    using handleDragEnd_moves[of source fields dest] by blast
  from a have same: "fieldsWithStableIds fields ! k = fields ! k"
    by (intro fieldsWithStableIds_token[where token = token]) simp_all
  from a have moved: "updated ! newPosition source dest k = withOrder (newPosition source dest k) (fields ! k)"
    unfolding u(3) same by (intro updatedField_token[where token = token]) simp_all
  from a have tok: "u_dragId (updated ! newPosition source dest k) = Some token"
    unfolding moved by (simp add: u_dragId_withOrder)
  from a tok have "generateStableId (updated ! newPosition source dest k) (newPosition source dest k)
                   = generateStableId (fields ! k) k"
    by (simp add: generateStableId_token)
  with u moved tok show "\<exists>updated. handleDragEnd fields source (Some dest) = FieldsChanged updated
               \<and> length updated = length fields
               \<and> updated ! newPosition source dest k = withOrder (newPosition source dest k) (fields ! k)
               \<and> u_dragId (updated ! newPosition source dest k) = Some token
               \<and> generateStableId (updated ! newPosition source dest k) (newPosition source dest k)
                   = generateStableId (fields ! k) k"
    by blast
qed (auto simp: generateStableId_def)


theorem C8_stable_identity_witness:
  "generateStableId draggedField 0 = ''field_1700000000000_k3j9x2a1b''
   \<and> generateStableId persistedField 1 = ''65a1f0c2e4b0a1b2c3d4e5f6''
   \<and> generateStableId (EditorField None None 3 fullNameField) 3 = ''field-full_name''
   \<and> generateStableId unnamedField 2 = ''field-temp-2''
   \<and> (\<exists>updated. handleDragEnd [draggedField, persistedField, unnamedField] 0 (Some 2)
                    = FieldsChanged updated
          \<and> length updated = 3
          \<and> updated ! 2 = withOrder 2 draggedField
          \<and> u_dragId (updated ! 2) = Some ''field_1700000000000_k3j9x2a1b''
          \<and> generateStableId (updated ! 2) 2 = generateStableId draggedField 0)"
proof -
  have 1: "generateStableId draggedField 0 = ''field_1700000000000_k3j9x2a1b''"
    using C8_stable_identity[of draggedField "''field_1700000000000_k3j9x2a1b''" 0]
    by (simp add: draggedField_def)
  have 2: "generateStableId persistedField 1 = ''65a1f0c2e4b0a1b2c3d4e5f6''"
    using C8_stable_identity[of persistedField _ 1 "''65a1f0c2e4b0a1b2c3d4e5f6''"]
    by (simp add: persistedField_def)
  have 3: "generateStableId (EditorField None None 3 fullNameField) 3 = ''field-full_name''"
    using C8_stable_identity[of "EditorField None None 3 fullNameField" _ 3]
    by (simp add: fullNameField_def name_full_name)
  have 4: "generateStableId unnamedField 2 = ''field-temp-2''"
    using C8_stable_identity[of unnamedField _ 2]
    by (simp add: unnamedField_def stringOfNat.simps digitChar_def)
  have 5: "\<exists>updated. handleDragEnd [draggedField, persistedField, unnamedField] 0 (Some 2)
                    = FieldsChanged updated
          \<and> length updated = 3
          \<and> updated ! 2 = withOrder 2 draggedField
          \<and> u_dragId (updated ! 2) = Some ''field_1700000000000_k3j9x2a1b''
          \<and> generateStableId (updated ! 2) 2 = generateStableId draggedField 0"
  proof -
    have hyp: "0 < length [draggedField, persistedField, unnamedField]
        \<and> 2 < length [draggedField, persistedField, unnamedField] \<and> (0::nat) \<noteq> 2
        \<and> 0 < length [draggedField, persistedField, unnamedField]
        \<and> u_dragId ([draggedField, persistedField, unnamedField] ! 0)
            = Some ''field_1700000000000_k3j9x2a1b''
        \<and> ''field_1700000000000_k3j9x2a1b'' \<noteq> []"
      by (simp add: draggedField_def)
    have np: "newPosition 0 2 0 = 2" by (simp add: newPosition_def)
    from C8_stable_identity[of draggedField "''field_1700000000000_k3j9x2a1b''" 0 storageId 0
        "[draggedField, persistedField, unnamedField]" 2 0,
        THEN conjunct2, THEN conjunct2, THEN conjunct2, THEN conjunct2, rule_format, OF hyp]
    show ?thesis unfolding np by (simp add: numeral_3_eq_3)
  qed
  from 1 2 3 4 5 show ?thesis by blast
qed

section \<open>The expander does not change its input\<close>

lemma grows_refl: "lookup s allFields = Some (ArrayObject es) \<Longrightarrow> grows n allFields s s"
  by (auto simp: grows_def)

lemma grows_trans:
  assumes "grows n allFields s s'" and "grows n allFields s' s''"
  shows "grows n allFields s s''"
proof -
  from assms(1) obtain es new where 1: "take n s' = take n s" "length s \<le> length s'"
    "lookup s allFields = Some (ArrayObject es)" "lookup s' allFields = Some (ArrayObject (es @ new))"
    "\<forall>a \<in> set new. length s \<le> a \<and> a < length s'"
    unfolding grows_def by blast
  from assms(2) obtain es' new' where 2: "take n s'' = take n s'" "length s' \<le> length s''"
    "lookup s' allFields = Some (ArrayObject es')" "lookup s'' allFields = Some (ArrayObject (es' @ new'))"
    "\<forall>a \<in> set new'. length s' \<le> a \<and> a < length s''"
    unfolding grows_def by blast
  from 1(4) 2(3) have es': "es' = es @ new" by simp
  have "lookup s'' allFields = Some (ArrayObject (es @ (new @ new')))"
    using 2(4) es' by simp
  moreover have "\<forall>a \<in> set (new @ new'). length s \<le> a \<and> a < length s''"
    using 1(2,5) 2(2,5) by fastforce
  ultimately show ?thesis
    unfolding grows_def using 1(1,2,3) 2(1,2) by (metis le_trans)
qed

lemma grows_array: "grows n allFields s s' \<Longrightarrow> \<exists>es. lookup s' allFields = Some (ArrayObject es)"
  by (auto simp: grows_def)

lemma forEach_grows:
  assumes step: "\<And>x s s'. body x s = Some s' \<Longrightarrow> \<exists>es. lookup s allFields = Some (ArrayObject es)
                   \<Longrightarrow> grows n allFields s s'"
      and "forEach body xs s = Some s'"
      and "\<exists>es. lookup s allFields = Some (ArrayObject es)"
  shows "grows n allFields s s'"
  using assms(2,3)
proof (induction xs arbitrary: s)
  case Nil
  then show ?case using grows_refl by auto
next
  case (Cons x xs)
  from Cons.prems(1) obtain s1 where s1: "body x s = Some s1" and rest: "forEach body xs s1 = Some s'"
    by (auto split: option.splits)
  from step[OF s1 Cons.prems(2)] have g1: "grows n allFields s s1" .
  then have "grows n allFields s1 s'" using Cons.IH[OF rest] grows_array by blast
  with g1 show ?case by (rule grows_trans)
qed

lemma pushCopy_grows:
  assumes "pushCopy allFields fieldName nestedField s = Some s'"
      and "n \<le> allFields" and "lookup s allFields = Some (ArrayObject es)"
  shows "grows n allFields s s'"
proof -
  from assms(3) have lt: "allFields < length s" and cell: "s ! allFields = ArrayObject es"
    by (auto simp: lookup_def split: if_splits)
  from assms(1) obtain nm l t r os v cf where
    nf: "lookup s nestedField = Some (FieldObject nm l t r os v cf)"
    by (auto simp: pushCopy_def split: option.splits cell.splits)
  let ?s2 = "(s @ [FieldObject nm l t r os v cf])[length s := FieldObject (qualify fieldName nm) l t r os v cf]"
  have s2: "setName (length s) (qualify fieldName nm) (s @ [FieldObject nm l t r os v cf]) = Some ?s2"
    by (simp add: setName_def lookup_def)
  have at: "lookup ?s2 allFields = Some (ArrayObject es)"
    using lt cell by (simp add: lookup_def nth_append)
  from assms(1) nf s2 at have s': "s' = ?s2[allFields := ArrayObject (es @ [length s])]"
    by (simp add: pushCopy_def alloc_def push_def)
  have "take n s' = take n s"
    using assms(2) lt unfolding s' by (simp add: take_update_cancel)
  moreover have "length s \<le> length s'" unfolding s' by simp
  moreover have "lookup s' allFields = Some (ArrayObject (es @ [length s]))"
    using lt unfolding s' by (simp add: lookup_def)
  moreover have "\<forall>a \<in> set [length s]. length s \<le> a \<and> a < length s'"
    unfolding s' by simp
  ultimately show ?thesis unfolding grows_def using assms(3) by blast
qed

lemma expandFieldRef_grows:
  assumes "expandFieldRef selectedValues allFields field s = Some s'"
      and "n \<le> allFields" and "\<exists>es. lookup s allFields = Some (ArrayObject es)"
  shows "grows n allFields s s'"
proof -
  have push: "grows n allFields s s'" if "forEach (pushCopy allFields nm) nested s = Some s'" for nm nested
    using that assms(3)
    by (rule forEach_grows[rotated]) (use assms(2) pushCopy_grows in blast)
  have same: "grows n allFields s s'" if "s' = s"
    using that assms(3) grows_refl by blast
  have "s' = s \<or> (\<exists>nm nested. forEach (pushCopy allFields nm) nested s = Some s')"
    using assms(1) unfolding expandFieldRef_def
    by (auto split: option.splits cell.splits property.splits if_splits)
  then show ?thesis using push same by blast
qed

lemma getAllFieldsRef_frame:
  assumes "getAllFieldsRef s fields selectedValues = Some (s', allFields)"
  shows "take (length s) s' = s
       \<and> (\<forall>a < length s. lookup s' a = lookup s a)
       \<and> allFields = length s
       \<and> (\<exists>fs new. lookup s fields = Some (ArrayObject fs)
             \<and> lookup s' allFields = Some (ArrayObject (fs @ new))
             \<and> (\<forall>a \<in> set new. length s < a \<and> a < length s'))"
proof -
  from assms obtain fs where fs: "lookup s fields = Some (ArrayObject fs)"
    and run: "forEach (expandFieldRef selectedValues (length s)) fs (s @ [ArrayObject fs]) = Some s'"
    and all: "allFields = length s"
    by (auto simp: getAllFieldsRef_def alloc_def split: option.splits cell.splits)
  have start: "lookup (s @ [ArrayObject fs]) (length s) = Some (ArrayObject fs)"
    by (simp add: lookup_def)
  have "grows (length s) (length s) (s @ [ArrayObject fs]) s'"
    using run
    by (rule forEach_grows[rotated]) (use start expandFieldRef_grows in blast)+
  then obtain new where keep: "take (length s) s' = s" and len: "Suc (length s) \<le> length s'"
    and arr: "lookup s' (length s) = Some (ArrayObject (fs @ new))"
    and fresh: "\<forall>a \<in> set new. Suc (length s) \<le> a \<and> a < length s'"
    using start unfolding grows_def by auto
  have "lookup s' a = lookup s a" if "a < length s" for a
  proof -
    from keep that have "s' ! a = s ! a" by (metis nth_take)
    with that len show ?thesis by (simp add: lookup_def)
  qed
  with keep all fs arr fresh show ?thesis by auto
qed

lemma grows_lookup:
  assumes "grows n allFields s s'" and "a < n" and "n \<le> length s"
  shows "lookup s' a = lookup s a"
proof -
  from assms(1) have t: "take n s' = take n s" and l: "length s \<le> length s'"
    by (auto simp: grows_def)
  from t assms(2) have "s' ! a = s ! a" by (metis nth_take)
  with assms(2,3) l show ?thesis by (simp add: lookup_def)
qed

lemma isField_less: "isField s a \<Longrightarrow> a < length s"
  by (auto simp: isField_def lookup_def split: if_splits)

lemma pushCopy_returns:
  assumes "isField s nestedField" and "lookup s allFields = Some (ArrayObject es)"
  shows "\<exists>s'. pushCopy allFields fieldName nestedField s = Some s'"
proof -
  from assms(1) obtain nm l t r os v cf where
    nf: "lookup s nestedField = Some (FieldObject nm l t r os v cf)"
    by (auto simp: isField_def split: option.splits cell.splits)
  from assms(2) have lt: "allFields < length s" and cell: "s ! allFields = ArrayObject es"
    by (auto simp: lookup_def split: if_splits)
  let ?s2 = "(s @ [FieldObject nm l t r os v cf])[length s := FieldObject (qualify fieldName nm) l t r os v cf]"
  have s2: "setName (length s) (qualify fieldName nm) (s @ [FieldObject nm l t r os v cf]) = Some ?s2"
    by (simp add: setName_def lookup_def)
  have at: "lookup ?s2 allFields = Some (ArrayObject es)"
    using lt cell by (simp add: lookup_def nth_append)
  from nf s2 at show ?thesis
    by (simp add: pushCopy_def alloc_def push_def)
qed

lemma forEach_pushCopy_returns:
  assumes "n \<le> allFields" and "n \<le> length s0"
      and "\<forall>nf \<in> set nested. isField s0 nf \<and> nf < n"
      and "take n s = take n s0" and "length s0 \<le> length s"
      and "\<exists>es. lookup s allFields = Some (ArrayObject es)"
  shows "\<exists>s'. forEach (pushCopy allFields fieldName) nested s = Some s'"
  using assms(3-6)
proof (induction nested arbitrary: s)
  case Nil
  then show ?case by simp
next
  case (Cons nf nested)
  from Cons.prems(1) have nf0: "isField s0 nf" and lt: "nf < n" by simp_all
  have "lookup s nf = lookup s0 nf"
  proof -
    from Cons.prems(2) lt have "s ! nf = s0 ! nf" by (metis nth_take)
    with lt assms(2) Cons.prems(3) show ?thesis by (simp add: lookup_def)
  qed
  with nf0 have "isField s nf" by (simp add: isField_def)
  with Cons.prems(4) obtain s1 where s1: "pushCopy allFields fieldName nf s = Some s1"
    using pushCopy_returns by blast
  with Cons.prems(4) have g: "grows n allFields s s1"
    using pushCopy_grows[OF s1 assms(1)] by blast
  then have "take n s1 = take n s0" "length s0 \<le> length s1"
    "\<exists>es. lookup s1 allFields = Some (ArrayObject es)"
    using Cons.prems(2,3) by (auto simp: grows_def)
  with Cons.IH[of s1] Cons.prems(1) obtain s' where
    "forEach (pushCopy allFields fieldName) nested s1 = Some s'" by auto
  with s1 show ?case by simp
qed


lemma kept_lookup:
  assumes "take n s = take n s0" and "a < n" and "n \<le> length s0" and "length s0 \<le> length s"
  shows "lookup s a = lookup s0 a"
proof -
  from assms(1,2) have "s ! a = s0 ! a" by (metis nth_take)
  with assms(2-4) show ?thesis by (simp add: lookup_def)
qed

lemma lookup_less: "lookup s a = Some c \<Longrightarrow> a < length s"
  by (auto simp: lookup_def split: if_splits)

lemma expandFieldRef_returns:
  assumes n: "n = length s0" and all: "n \<le> allFields"
      and f: "isSchemaField s0 field"
      and kept: "take n s = take n s0" and len: "length s0 \<le> length s"
      and arr: "\<exists>es. lookup s allFields = Some (ArrayObject es)"
  shows "\<exists>s'. expandFieldRef selectedValues allFields field s = Some s'"
proof -
  from f obtain nm l t r os v cf where
    cell0: "lookup s0 field = Some (FieldObject nm l t r os v cf)"
    and branches: "\<And>bs. cf = Some bs \<Longrightarrow> list_all (\<lambda>b. isBranch s0 (snd b)) bs"
    by (auto simp: isSchemaField_def split: option.splits cell.splits)
  have same: "lookup s a = lookup s0 a" if "a < length s0" for a
    using kept that n len by (intro kept_lookup[where n = n]) simp_all
  from cell0 have cell: "lookup s field = Some (FieldObject nm l t r os v cf)"
    using same lookup_less by metis
  show ?thesis
  proof (cases "(t = ''radio'' \<or> t = ''select'') \<and> cf \<noteq> None")
    case False
    with cell show ?thesis by (auto simp: expandFieldRef_def)
  next
    case True
    then obtain bs where bs: "cf = Some bs" by auto
    show ?thesis
    proof (cases "selectedKey selectedValues nm")
      case None
      with cell True bs show ?thesis by (simp add: expandFieldRef_def)
    next
      case (Some key)
      show ?thesis
      proof (cases "getProperty (map_of bs) key")
        case (Own branch)
        then have "map_of bs key = Some branch"
          by (simp add: getProperty_def split: option.splits if_splits)
        then have "(key, branch) \<in> set bs" by (rule map_of_SomeD)
        with branches[OF bs] have br: "isBranch s0 branch"
          by (auto simp: list_all_iff)
        then obtain c where c0: "lookup s0 branch = Some c"
          by (auto simp: isBranch_def split: option.splits)
        then have c: "lookup s branch = Some c" using same lookup_less by metis
        show ?thesis
        proof (cases c)
          case (FieldObject x1 x2 x3 x4 x5 x6 x7)
          with cell True bs Some Own c show ?thesis by (simp add: expandFieldRef_def)
        next
          case (ArrayObject nested)
          with br c0 have "list_all (isField s0) nested" by (simp add: isBranch_def)
          then have "\<forall>nf \<in> set nested. isField s0 nf \<and> nf < n"
            using isField_less n by (auto simp: list_all_iff)
          then obtain s' where "forEach (pushCopy allFields nm) nested s = Some s'"
            using forEach_pushCopy_returns[OF all _ _ kept len arr, of nested nm] n by auto
          with cell True bs Some Own c ArrayObject show ?thesis by (simp add: expandFieldRef_def)
        qed
      next
        case (Inherited member)
        with cell True bs Some show ?thesis by (simp add: expandFieldRef_def)
      next
        case Missing
        with cell True bs Some show ?thesis by (simp add: expandFieldRef_def)
      qed
    qed
  qed
qed

lemma forEach_expandFieldRef_returns:
  assumes n: "n = length s0" and all: "n \<le> allFields"
      and fs: "\<forall>f \<in> set fs. isSchemaField s0 f"
      and kept: "take n s = take n s0" and len: "length s0 \<le> length s"
      and arr: "\<exists>es. lookup s allFields = Some (ArrayObject es)"
  shows "\<exists>s'. forEach (expandFieldRef selectedValues allFields) fs s = Some s'"
  using fs kept len arr
proof (induction fs arbitrary: s)
  case Nil
  then show ?case by simp
next
  case (Cons f fs)
  from Cons.prems(1) have "isSchemaField s0 f" by simp
  then obtain s1 where s1: "expandFieldRef selectedValues allFields f s = Some s1"
    using expandFieldRef_returns[OF n all _ Cons.prems(2,3,4)] by blast
  then have "grows n allFields s s1"
    using expandFieldRef_grows[OF s1 all Cons.prems(4)] by simp
  then have "take n s1 = take n s0" "length s0 \<le> length s1"
    "\<exists>es. lookup s1 allFields = Some (ArrayObject es)"
    using Cons.prems(2,3) by (auto simp: grows_def)
  with Cons.IH[of s1] Cons.prems(1) obtain s' where
    "forEach (expandFieldRef selectedValues allFields) fs s1 = Some s'" by auto
  with s1 show ?case by simp
qed

lemma getAllFieldsRef_returns:
  assumes "holdsSchema s fields"
  shows "\<exists>s' allFields. getAllFieldsRef s fields selectedValues = Some (s', allFields)"
proof -
  from assms obtain fs where fs: "lookup s fields = Some (ArrayObject fs)"
    and ok: "\<forall>f \<in> set fs. isSchemaField s f"
    by (auto simp: holdsSchema_def list_all_iff split: option.splits cell.splits)
  have "\<exists>s'. forEach (expandFieldRef selectedValues (length s)) fs (s @ [ArrayObject fs]) = Some s'"
    by (rule forEach_expandFieldRef_returns[where ?s0.0 = s and n = "length s"])
       (use ok in \<open>simp_all add: lookup_def\<close>)
  with fs show ?thesis by (auto simp: getAllFieldsRef_def alloc_def)
qed

lemma contact_ref:
  "getAllFieldsRef contactStore 3 [''contact_method'' \<mapsto> ''Email'']
     = Some (contactStore @
              [ArrayObject [2, 5],
               FieldObject ''contact_method_email_address'' ''Email Address'' ''email'' True []
                 noValidation None], 4)"
  by (simp add: getAllFieldsRef_def contactStore_def lookup_def alloc_def expandFieldRef_def
      selectedKey_def getProperty_def pushCopy_def setName_def push_def qualify_def nth_append)

text \<open>
  Claim C10. On a store that holds a schema, \<^verbatim>\<open>getAllFields\<close> returns, and when it has run
  every cell of the store it started from is as it was: the array of top-level fields, the
  field objects, the branch arrays and the nested fields with their names. The result is a
  new array, at an address that was not allocated before; it holds the addresses of the
  top-level fields followed by addresses of objects allocated during the run (the copies
  that carry the qualified names).
\<close>

theorem C10_no_mutation:
  assumes "holdsSchema s fields"
  shows "\<exists>s' allFields.
           getAllFieldsRef s fields selectedValues = Some (s', allFields)
           \<and> take (length s) s' = s
           \<and> (\<forall>a < length s. lookup s' a = lookup s a)
           \<and> allFields = length s
           \<and> (\<exists>fs new. lookup s fields = Some (ArrayObject fs)
                 \<and> lookup s' allFields = Some (ArrayObject (fs @ new))
                 \<and> (\<forall>a \<in> set new. length s < a \<and> a < length s'))"
proof -
  from getAllFieldsRef_returns[OF assms] obtain s' allFields where
    run: "getAllFieldsRef s fields selectedValues = Some (s', allFields)" by blast
  from getAllFieldsRef_frame[OF run] run show ?thesis by blast
qed

theorem C10_no_mutation_witness:
  "holdsSchema contactStore 3
   \<and> (\<exists>s' allFields.
         getAllFieldsRef contactStore 3 [''contact_method'' \<mapsto> ''Email''] = Some (s', allFields)
         \<and> take (length contactStore) s' = contactStore
         \<and> lookup s' 0 = lookup contactStore 0
         \<and> allFields = 4
         \<and> lookup s' allFields = Some (ArrayObject [2, 5])
         \<and> lookup s' 5
             = Some (FieldObject ''contact_method_email_address'' ''Email Address'' ''email'' True []
                       noValidation None))"
proof -
  have h: "holdsSchema contactStore 3"
    by (simp add: holdsSchema_def isSchemaField_def isBranch_def isField_def lookup_def
        contactStore_def)
  from C10_no_mutation[OF h, of "[''contact_method'' \<mapsto> ''Email'']"] obtain s' allFields where
    run: "getAllFieldsRef contactStore 3 [''contact_method'' \<mapsto> ''Email''] = Some (s', allFields)"
    and keep: "take (length contactStore) s' = contactStore"
    and same: "\<forall>a < length contactStore. lookup s' a = lookup contactStore a"
    by blast
  from same have zero: "lookup s' 0 = lookup contactStore 0"
    by (simp add: contactStore_def)
  from run have s': "s' = contactStore @
              [ArrayObject [2, 5],
               FieldObject ''contact_method_email_address'' ''Email Address'' ''email'' True []
                 noValidation None]" and a: "allFields = 4"
    unfolding contact_ref by simp_all
  have "lookup s' allFields = Some (ArrayObject [2, 5])"
    "lookup s' 5 = Some (FieldObject ''contact_method_email_address'' ''Email Address'' ''email''
                       True [] noValidation None)"
    unfolding s' a by (simp_all add: lookup_def contactStore_def)
  with h run keep zero a show ?thesis by blast
qed

section \<open>Validation of empty values\<close>

































end
